theory Spec2Isabelle
  imports Complex_Main
begin

section \<open>The tensor substrate\<close>

text \<open>
  Modelled from the spec: the tensor library of the hosting framework (\<open>ops\<close>,
  \<open>array_ops\<close>, \<open>math_ops\<close>, \<open>nn\<close>, \<open>tensor_shape\<close>) is not among the sources;
  the distribution class reaches it through elementwise operations, broadcasting, casts
  and shape introspection, which are given here with their documented meaning.

  A tensor is its element type tag, its statically inferred shape, its run-time shape and
  the entry stored at each multi-index. Parameter tensors are floating-point tensors and
  their entries are mathematical reals: rounding is outside the model, and so are
  overflow, the infinities and not-a-number, except in the entropy, whose exponential
  is taken on floating-point values. The framework's checks that the operands of an
  operation agree in element type, and the run-time assertion operations attached under
  \<open>validate_args\<close>, are not evaluated.
\<close>

datatype error = ValueError | IncompatibleShapes | ConversionError

datatype dtype = DT_float32 | DT_float64 | DT_int32 | DT_int64 | DT_bool

text \<open>
  \<open>get_shape\<close> is the static shape: \<open>Some s\<close> when it is fully defined, \<open>None\<close> when
  the rank or one of the dimensions is unknown while the graph is built. \<open>shape\<close> is the
  shape the tensor has when it is evaluated.
\<close>

type_synonym static_shape = "nat list option"

record 'a tensor =
  tdtype :: dtype
  get_shape :: static_shape
  shape :: "nat list"
  entry :: "nat list \<Rightarrow> 'a"

definition is_fully_defined :: "static_shape \<Rightarrow> bool" where
  "is_fully_defined s = (s \<noteq> None)"

definition consistent :: "'a tensor \<Rightarrow> bool" where
  "consistent t = (case get_shape t of None \<Rightarrow> True | Some s \<Rightarrow> s = shape t)"

definition valid_index :: "nat list \<Rightarrow> nat list \<Rightarrow> bool" where
  "valid_index s i = list_all2 (\<lambda>k n. k < n) i s"

text \<open>
  Broadcasting aligns the trailing dimensions of the two shapes; a dimension of size one
  stretches to the other operand's size, and a missing leading dimension counts as one.
  \<open>broadcast_dims\<close> works on the reversed shapes (innermost dimension first).
\<close>

fun broadcast_dims :: "nat list \<Rightarrow> nat list \<Rightarrow> nat list option" where
  "broadcast_dims [] ys = Some ys"
| "broadcast_dims (x # xs) [] = Some (x # xs)"
| "broadcast_dims (x # xs) (y # ys) =
     (if x = y \<or> y = 1 then map_option (Cons x) (broadcast_dims xs ys)
      else if x = 1 then map_option (Cons y) (broadcast_dims xs ys)
      else None)"

definition broadcast_shape :: "nat list \<Rightarrow> nat list \<Rightarrow> nat list option" where
  "broadcast_shape a b = map_option rev (broadcast_dims (rev a) (rev b))"

text \<open>
  The position in an operand of shape \<open>s\<close> that is read for position \<open>i\<close> of the
  broadcast result: the trailing coordinates of \<open>i\<close>, with zero wherever the operand's
  dimension is one (again on reversed lists).
\<close>

fun broadcast_pos :: "nat list \<Rightarrow> nat list \<Rightarrow> nat list" where
  "broadcast_pos [] is = []"
| "broadcast_pos (d # ds) [] = []"
| "broadcast_pos (d # ds) (i # is) = (if d = 1 then 0 else i) # broadcast_pos ds is"

definition broadcast_index :: "nat list \<Rightarrow> nat list \<Rightarrow> nat list" where
  "broadcast_index s i = rev (broadcast_pos (rev s) (rev i))"

definition broadcast_op ::
  "dtype \<Rightarrow> ('a \<Rightarrow> 'b \<Rightarrow> 'c) \<Rightarrow> 'a tensor \<Rightarrow> 'b tensor \<Rightarrow> error + 'c tensor" where
  "broadcast_op rdt f a b =
     (case broadcast_shape (shape a) (shape b) of
        None \<Rightarrow> Inl IncompatibleShapes
      | Some s \<Rightarrow>
          Inr \<lparr>tdtype = rdt,
               get_shape = (if is_fully_defined (get_shape a) \<and> is_fully_defined (get_shape b)
                            then Some s else None),
               shape = s,
               entry = (\<lambda>i. f (entry a (broadcast_index (shape a) i))
                               (entry b (broadcast_index (shape b) i)))\<rparr>)"

definition map_tensor :: "('a \<Rightarrow> 'b) \<Rightarrow> 'a tensor \<Rightarrow> 'b tensor" where
  "map_tensor f t =
     \<lparr>tdtype = tdtype t, get_shape = get_shape t, shape = shape t,
      entry = (\<lambda>i. f (entry t i))\<rparr>"

definition and_then :: "error + 'a \<Rightarrow> ('a \<Rightarrow> error + 'b) \<Rightarrow> error + 'b" where
  "and_then r f = (case r of Inl e \<Rightarrow> Inl e | Inr x \<Rightarrow> f x)"

text \<open>
  A Python number used as an operand is converted to a rank-0 constant of the other
  operand's element type. The arithmetic operators and comparisons broadcast.
\<close>

definition constant_t :: "real \<Rightarrow> dtype \<Rightarrow> real tensor" where
  "constant_t c dty = \<lparr>tdtype = dty, get_shape = Some [], shape = [], entry = (\<lambda>i. c)\<rparr>"

definition add :: "real tensor \<Rightarrow> real tensor \<Rightarrow> error + real tensor" where
  "add a b = broadcast_op (tdtype a) (\<lambda>x y. x + y) a b"

definition sub :: "real tensor \<Rightarrow> real tensor \<Rightarrow> error + real tensor" where
  "sub a b = broadcast_op (tdtype a) (\<lambda>x y. x - y) a b"

definition mul :: "real tensor \<Rightarrow> real tensor \<Rightarrow> error + real tensor" where
  "mul a b = broadcast_op (tdtype a) (\<lambda>x y. x * y) a b"

definition less_t :: "real tensor \<Rightarrow> real tensor \<Rightarrow> error + bool tensor" where
  "less_t a b = broadcast_op DT_bool (\<lambda>x y. x < y) a b"

definition greater :: "real tensor \<Rightarrow> real tensor \<Rightarrow> error + bool tensor" where
  "greater a b = broadcast_op DT_bool (\<lambda>x y. x > y) a b"

text \<open>
  The elementwise functions. The logarithm and the square root of HOL are total
  (\<open>ln 0 = 0\<close>, \<open>ln x = ln \<bar>x\<bar>\<close> and \<open>sqrt x = - sqrt \<bar>x\<bar>\<close> for negative \<open>x\<close>,
  and \<open>x / 0 = 0\<close>), where the framework returns an infinity or not-a-number, and
  \<open>exp_t\<close> cannot overflow: the model of these functions agrees with the framework only
  where the logarithm is taken of a positive number, no division by zero occurs and the
  exponential is taken of a number that is not large (in \<open>prob\<close>, of a
  log-probability). The exponential of the entropy, which can overflow on finite logits,
  is modelled on floating-point values below.
\<close>

definition neg :: "real tensor \<Rightarrow> real tensor" where
  "neg t = map_tensor (\<lambda>x. - x) t"

definition exp_t :: "real tensor \<Rightarrow> real tensor" where
  "exp_t t = map_tensor exp t"

definition log_t :: "real tensor \<Rightarrow> real tensor" where
  "log_t t = map_tensor ln t"

definition sqrt_t :: "real tensor \<Rightarrow> real tensor" where
  "sqrt_t t = map_tensor sqrt t"

definition identity :: "'a tensor \<Rightarrow> 'a tensor" where
  "identity t = t"

definition ones_like :: "real tensor \<Rightarrow> real tensor" where
  "ones_like t = map_tensor (\<lambda>x. 1) t"

text \<open>
  \<open>cast\<close> to a floating type keeps the (ideal) numbers and changes the tag; the cast
  of a boolean tensor to a numeric type gives one for true and zero for false.
\<close>

definition cast :: "real tensor \<Rightarrow> dtype \<Rightarrow> real tensor" where
  "cast t dty = (map_tensor (\<lambda>x. x) t)\<lparr>tdtype := dty\<rparr>"

definition cast_bool :: "bool tensor \<Rightarrow> dtype \<Rightarrow> real tensor" where
  "cast_bool t dty = (map_tensor (\<lambda>b. if b then 1 else 0) t)\<lparr>tdtype := dty\<rparr>"

text \<open>
  \<open>nn.sigmoid\<close> is the inverse of the log-odds \<open>log(p / (1 - p))\<close>, and \<open>nn.softplus\<close>
  is \<open>log(1 + exp(x))\<close>.
\<close>

definition sigmoid :: "real \<Rightarrow> real" where
  "sigmoid x = 1 / (1 + exp (- x))"

definition softplus :: "real \<Rightarrow> real" where
  "softplus x = ln (1 + exp x)"

definition sigmoid_t :: "real tensor \<Rightarrow> real tensor" where
  "sigmoid_t t = map_tensor sigmoid t"

definition softplus_t :: "real tensor \<Rightarrow> real tensor" where
  "softplus_t t = map_tensor softplus t"

definition div_t :: "real tensor \<Rightarrow> real tensor \<Rightarrow> error + real tensor" where
  "div_t a b = broadcast_op (tdtype a) (\<lambda>x y. x / y) a b"

text \<open>
  Floating-point values where overflow matters: a finite number, an infinity or
  not-a-number. Under round-to-nearest a result of magnitude at least
  \<open>2^emax * (2 - 2^(-p))\<close> becomes an infinity; that is \<open>2^128 - 2^103\<close> for
  \<open>float32\<close> and \<open>2^1024 - 2^970\<close> for \<open>float64\<close> (the other element types, which have
  no exponential in the framework, are given the wider format). The rounding of finite
  results is not modelled. The logarithm and the sum follow the arithmetic of the
  infinities.
\<close>

datatype fval = Finite real | PosInf | NegInf | NaN

definition overflow_bound :: "dtype \<Rightarrow> real" where
  "overflow_bound dty =
     (case dty of DT_float32 \<Rightarrow> 2 ^ 128 - 2 ^ 103 | _ \<Rightarrow> 2 ^ 1024 - 2 ^ 970)"

definition exp_f :: "dtype \<Rightarrow> real \<Rightarrow> fval" where
  "exp_f dty x = (if overflow_bound dty \<le> exp x then PosInf else Finite (exp x))"

fun log_f :: "fval \<Rightarrow> fval" where
  "log_f (Finite a) = (if 0 < a then Finite (ln a) else if a = 0 then NegInf else NaN)"
| "log_f PosInf = PosInf"
| "log_f NegInf = NaN"
| "log_f NaN = NaN"

fun add_f :: "fval \<Rightarrow> fval \<Rightarrow> fval" where
  "add_f (Finite a) (Finite b) = Finite (a + b)"
| "add_f NaN y = NaN"
| "add_f x NaN = NaN"
| "add_f PosInf NegInf = NaN"
| "add_f NegInf PosInf = NaN"
| "add_f PosInf y = PosInf"
| "add_f x PosInf = PosInf"
| "add_f NegInf y = NegInf"
| "add_f x NegInf = NegInf"

definition to_float :: "real tensor \<Rightarrow> fval tensor" where
  "to_float t = map_tensor Finite t"

definition exp_float :: "real tensor \<Rightarrow> fval tensor" where
  "exp_float t = map_tensor (exp_f (tdtype t)) t"

definition log_float :: "fval tensor \<Rightarrow> fval tensor" where
  "log_float t = map_tensor log_f t"

definition add_float :: "fval tensor \<Rightarrow> fval tensor \<Rightarrow> error + fval tensor" where
  "add_float a b = broadcast_op (tdtype a) add_f a b"

text \<open>
  Modelled from the spec: \<open>nn.sigmoid_cross_entropy_with_logits\<close> is not among the
  sources. It is the framework's sigmoid cross-entropy in its numerically stable form
  \<open>max(x, 0) - x * z + log(1 + exp(-abs(x)))\<close>; it does not broadcast, so operands of
  different shapes are refused.
\<close>

definition sigmoid_xent :: "real \<Rightarrow> real \<Rightarrow> real" where
  "sigmoid_xent x z = max x 0 - x * z + ln (1 + exp (- \<bar>x\<bar>))"

definition sigmoid_cross_entropy_with_logits ::
  "real tensor \<Rightarrow> real tensor \<Rightarrow> error + real tensor" where
  "sigmoid_cross_entropy_with_logits lg targets =
     (if shape lg \<noteq> shape targets then Inl IncompatibleShapes
      else Inr \<lparr>tdtype = tdtype lg, get_shape = get_shape lg, shape = shape lg,
                entry = (\<lambda>i. sigmoid_xent (entry lg i) (entry targets i))\<rparr>)"

section \<open>The Bernoulli distribution\<close>

text \<open>
  Modelled from the spec: \<open>distribution_util.get_logits_and_prob\<close> is not among the
  sources. Exactly one of \<open>logits\<close> and \<open>p\<close> is accepted, and an argument error is
  raised otherwise; the probability of supplied logits is their sigmoid, and the logits of
  a supplied probability are the log-odds \<open>log(p / (1 - p))\<close>.
\<close>

definition get_logits_and_prob ::
  "real tensor option \<Rightarrow> real tensor option \<Rightarrow> bool \<Rightarrow> error + (real tensor \<times> real tensor)" where
  "get_logits_and_prob logits p validate_args =
     (case (logits, p) of
        (None, None) \<Rightarrow> Inl ValueError
      | (Some l, Some x) \<Rightarrow> Inl ValueError
      | (Some l, None) \<Rightarrow> Inr (identity l, sigmoid_t l)
      | (None, Some x) \<Rightarrow>
          and_then (sub (constant_t 1 (tdtype x)) x) (\<lambda>c.
          and_then (div_t x c) (\<lambda>odds. Inr (log_t odds, identity x))))"

text \<open>
  The instance: the three parameter tensors, and what the base class stores of the
  arguments of its constructor.
\<close>

record bernoulli =
  self_logits :: "real tensor"
  self_p :: "real tensor"
  self_q :: "real tensor"
  self_dtype :: dtype
  self_is_continuous :: bool
  self_is_reparameterized :: bool
  self_validate_args :: bool
  self_allow_nan_stats :: bool
  self_name :: string

definition Bernoulli_init ::
  "real tensor option \<Rightarrow> real tensor option \<Rightarrow> dtype \<Rightarrow> bool \<Rightarrow> bool \<Rightarrow> string
     \<Rightarrow> error + bernoulli" where
  "Bernoulli_init logits p dtype validate_args allow_nan_stats name =
     and_then (get_logits_and_prob logits p validate_args) (\<lambda>(l, x).
     and_then (sub (constant_t 1 (tdtype x)) x) (\<lambda>q.
       Inr \<lparr>self_logits = l, self_p = x, self_q = q, self_dtype = dtype,
            self_is_continuous = False, self_is_reparameterized = False,
            self_validate_args = validate_args, self_allow_nan_stats = allow_nan_stats,
            self_name = name\<rparr>))"

definition param_shapes :: "nat list \<Rightarrow> (string \<times> nat list) list" where
  "param_shapes sample_shape = [(''logits'', sample_shape)]"

definition batch_shape :: "bernoulli \<Rightarrow> nat list" where
  "batch_shape d = shape (self_logits d)"

definition get_batch_shape :: "bernoulli \<Rightarrow> static_shape" where
  "get_batch_shape d = get_shape (self_logits d)"

definition event_shape :: "bernoulli \<Rightarrow> nat list" where
  "event_shape d = []"

definition get_event_shape :: "bernoulli \<Rightarrow> static_shape" where
  "get_event_shape d = Some []"

text \<open>
  \<open>random_ops.random_uniform\<close> is a parameter of the model: it gives, for a shape, a
  seed and an element type, the tensor of noise that is drawn. The number of samples is a
  natural number.
\<close>

definition sample_n ::
  "(nat list \<Rightarrow> int option \<Rightarrow> dtype \<Rightarrow> real tensor) \<Rightarrow> bernoulli \<Rightarrow> nat \<Rightarrow> int option
     \<Rightarrow> error + real tensor" where
  "sample_n random_uniform d n seed =
     (let new_shape = [n] @ batch_shape d;
          uniform = random_uniform new_shape seed (tdtype (self_p d))
      in and_then (less_t uniform (self_p d)) (\<lambda>sample.
           Inr (cast_bool sample (self_dtype d))))"

definition log_prob :: "bernoulli \<Rightarrow> real tensor \<Rightarrow> error + real tensor" where
  "log_prob d event0 =
     (let event = cast event0 (tdtype (self_logits d));
          logits = self_logits d
      in if \<not> is_fully_defined (get_shape event) \<or> \<not> is_fully_defined (get_shape logits)
            \<or> get_shape event \<noteq> get_shape logits
         then and_then (mul (ones_like event) logits) (\<lambda>logits'.
              and_then (mul (ones_like logits') event) (\<lambda>event'.
              and_then (sigmoid_cross_entropy_with_logits logits' event') (\<lambda>r. Inr (neg r))))
         else and_then (sigmoid_cross_entropy_with_logits logits event) (\<lambda>r. Inr (neg r)))"

definition prob :: "bernoulli \<Rightarrow> real tensor \<Rightarrow> error + real tensor" where
  "prob d event = and_then (log_prob d event) (\<lambda>lp. Inr (exp_t lp))"

text \<open>
  The entropy. For finite logits the product \<open>-x * (sigmoid x - 1)\<close> is finite, at most
  \<open>\<bar>x\<bar>\<close> in magnitude. \<open>exp(-x)\<close> is a floating-point exponential and can overflow;
  the infinity then goes through \<open>1. + \<dots>\<close>, the logarithm and the final sum.
\<close>

definition entropy :: "bernoulli \<Rightarrow> error + fval tensor" where
  "entropy d =
     and_then (sub (sigmoid_t (self_logits d)) (constant_t 1 (tdtype (self_logits d)))) (\<lambda>s1.
     and_then (mul (neg (self_logits d)) s1) (\<lambda>lhs.
     and_then (add_float (to_float (constant_t 1 (tdtype (self_logits d))))
                 (exp_float (neg (self_logits d)))) (\<lambda>e1.
       add_float (to_float lhs) (log_float e1))))"

definition mean :: "bernoulli \<Rightarrow> real tensor" where
  "mean d = identity (self_p d)"

definition variance :: "bernoulli \<Rightarrow> error + real tensor" where
  "variance d = mul (self_q d) (self_p d)"

definition std :: "bernoulli \<Rightarrow> error + real tensor" where
  "std d = and_then (variance d) (\<lambda>v. Inr (sqrt_t v))"

definition mode :: "bernoulli \<Rightarrow> error + real tensor" where
  "mode d = and_then (greater (self_p d) (self_q d)) (\<lambda>b. Inr (cast_bool b (self_dtype d)))"

text \<open>
  \<open>BernoulliWithSigmoidP\<close>: the raw parameter goes through \<open>nn.sigmoid\<close>, which cannot
  convert an absent parameter to a tensor.
\<close>

definition BernoulliWithSigmoidP_init ::
  "real tensor option \<Rightarrow> dtype \<Rightarrow> bool \<Rightarrow> bool \<Rightarrow> string \<Rightarrow> error + bernoulli" where
  "BernoulliWithSigmoidP_init p dtype validate_args allow_nan_stats name =
     (case p of
        None \<Rightarrow> Inl ConversionError
      | Some x \<Rightarrow> Bernoulli_init None (Some (sigmoid_t x)) dtype validate_args allow_nan_stats name)"

definition kl_bernoulli_bernoulli :: "bernoulli \<Rightarrow> bernoulli \<Rightarrow> error + real tensor" where
  "kl_bernoulli_bernoulli a b =
     and_then (add (neg (softplus_t (neg (self_logits a)))) (softplus_t (neg (self_logits b)))) (\<lambda>u.
     and_then (mul (sigmoid_t (self_logits a)) u) (\<lambda>lhs.
     and_then (add (neg (softplus_t (self_logits a))) (softplus_t (self_logits b))) (\<lambda>v.
     and_then (mul (sigmoid_t (neg (self_logits a))) v) (\<lambda>rhs.
       add lhs rhs))))"

text \<open>A concrete noise source for examples: every draw is one half.\<close>

definition example_uniform :: "nat list \<Rightarrow> int option \<Rightarrow> dtype \<Rightarrow> real tensor" where
  "example_uniform s seed dty = \<lparr>tdtype = dty, get_shape = None, shape = s, entry = (\<lambda>i. 1/2)\<rparr>"

text \<open>A concrete parameter tensor for examples: the vector \<open>[0, 1]\<close>.\<close>

definition example_logits :: "real tensor" where
  "example_logits =
     \<lparr>tdtype = DT_float32, get_shape = Some [2], shape = [2],
      entry = (\<lambda>i. if i = [0] then 0 else 1)\<rparr>"

section \<open>Broadcasting\<close>

lemma broadcast_dims_Nil_right: "broadcast_dims xs [] = Some xs"
  by (cases xs) simp_all

lemma broadcast_dims_same: "broadcast_dims s s = Some s"
  by (induction s) simp_all

lemma broadcast_dims_append: "broadcast_dims (r @ t) r = Some (r @ t)"
  by (induction r) (simp_all add: broadcast_dims_Nil_right)

lemma broadcast_dims_absorb:
  "broadcast_dims a b = Some c \<Longrightarrow> broadcast_dims c a = Some c"
proof (induction a b arbitrary: c rule: broadcast_dims.induct)
  case (1 ys)
  then show ?case by (simp add: broadcast_dims_Nil_right)
next
  case (2 x xs)
  then show ?case by (auto simp: broadcast_dims_same)
next
  case (3 x xs y ys)
  then show ?case by (auto split: if_splits)
qed

lemma broadcast_shape_same: "broadcast_shape s s = Some s"
  by (simp add: broadcast_shape_def broadcast_dims_same)

lemma broadcast_shape_Nil_left: "broadcast_shape [] s = Some s"
  by (simp add: broadcast_shape_def)

lemma broadcast_shape_Nil_right: "broadcast_shape s [] = Some s"
  by (simp add: broadcast_shape_def broadcast_dims_Nil_right)

lemma broadcast_shape_Cons: "broadcast_shape (n # s) s = Some (n # s)"
  by (simp add: broadcast_shape_def broadcast_dims_append)

lemma broadcast_shape_absorb:
  "broadcast_shape a b = Some c \<Longrightarrow> broadcast_shape c a = Some c"
  by (auto simp: broadcast_shape_def dest: broadcast_dims_absorb)

lemma broadcast_pos_prefix:
  "list_all2 (\<lambda>k n. k < n) i ds \<Longrightarrow> broadcast_pos ds (i @ extra) = i"
  by (induction i ds rule: list_all2_induct) auto

lemma broadcast_index_same: "valid_index s i \<Longrightarrow> broadcast_index s i = i"
  using broadcast_pos_prefix [of "rev i" "rev s" "[]"]
  by (simp add: valid_index_def broadcast_index_def)

lemma broadcast_index_Cons: "valid_index s i \<Longrightarrow> broadcast_index s (k # i) = i"
  using broadcast_pos_prefix [of "rev i" "rev s" "[k]"]
  by (simp add: valid_index_def broadcast_index_def)

lemma broadcast_index_Nil: "broadcast_index [] i = []"
  by (simp add: broadcast_index_def)

section \<open>Sigmoid, softplus and the cross-entropy\<close>

lemma sigmoid_pos: "0 < sigmoid x"
  by (simp add: sigmoid_def add_pos_pos)

lemma sigmoid_less_one: "sigmoid x < 1"
proof -
  have "1 < 1 + exp (- x)" by simp
  then show ?thesis unfolding sigmoid_def by (simp add: add_pos_pos)
qed

lemma one_minus_sigmoid: "1 - sigmoid x = sigmoid (- x)"
proof -
  have "exp x * exp (- x) = 1" by (simp add: exp_minus_inverse)
  hence "(1 + exp x) * (1 + exp (- x) - 1) = 1 + exp (- x)"
    by (simp add: algebra_simps)
  moreover have "1 + exp x > 0" "1 + exp (- x) > 0" by (simp_all add: add_pos_pos)
  ultimately show ?thesis
    by (simp add: sigmoid_def field_simps)
qed

lemma ln_sigmoid: "ln (sigmoid x) = - softplus (- x)"
  by (simp add: sigmoid_def softplus_def ln_div add_pos_pos)

lemma softplus_neg: "softplus x = x + softplus (- x)"
proof -
  have "1 + exp x = exp x * (1 + exp (- x))"
    by (simp add: algebra_simps exp_minus_inverse)
  hence "ln (1 + exp x) = ln (exp x * (1 + exp (- x)))" by simp
  also have "\<dots> = x + ln (1 + exp (- x))"
    by (simp add: ln_mult_pos add_pos_pos)
  finally show ?thesis by (simp add: softplus_def)
qed

lemma sigmoid_xent_softplus: "sigmoid_xent x z = x - x * z + softplus (- x)"
proof (cases "0 \<le> x")
  case True
  then show ?thesis by (simp add: sigmoid_xent_def softplus_def max_def)
next
  case False
  then show ?thesis
    using softplus_neg [of x] by (simp add: sigmoid_xent_def softplus_def max_def)
qed

lemma sigmoid_xent_log_likelihood:
  "- sigmoid_xent x z = z * ln (sigmoid x) + (1 - z) * ln (1 - sigmoid x)"
proof -
  have "ln (1 - sigmoid x) = - softplus x"
    using ln_sigmoid [of "- x"] by (simp add: one_minus_sigmoid)
  also have "\<dots> = - x - softplus (- x)" using softplus_neg [of x] by simp
  finally have a: "ln (1 - sigmoid x) = - x - softplus (- x)" .
  show ?thesis
    unfolding a sigmoid_xent_softplus ln_sigmoid by (simp add: algebra_simps)
qed

lemma entropy_identity:
  "- x * (sigmoid x - 1) + ln (1 + exp (- x))
     = - sigmoid x * ln (sigmoid x) - (1 - sigmoid x) * ln (1 - sigmoid x)"
proof -
  have a: "ln (1 - sigmoid x) = - x - softplus (- x)"
    using ln_sigmoid [of "- x"] softplus_neg [of x] by (simp add: one_minus_sigmoid)
  have b: "ln (1 + exp (- x)) = softplus (- x)" by (simp add: softplus_def)
  show ?thesis unfolding a b ln_sigmoid by (simp add: algebra_simps)
qed

lemma sigmoid_log_odds:
  assumes "0 < p" "p < 1"
  shows "sigmoid (ln (p / (1 - p))) = p"
proof -
  have "0 < p / (1 - p)" using assms by simp
  hence "exp (- ln (p / (1 - p))) = (1 - p) / p"
    by (simp add: exp_minus)
  hence "1 + exp (- ln (p / (1 - p))) = 1 / p"
    using assms by (simp add: field_simps)
  then show ?thesis using assms unfolding sigmoid_def by simp
qed

section \<open>Elementwise operations and construction\<close>

lemma broadcast_opE:
  assumes "broadcast_shape (shape a) (shape b) = Some s"
  obtains r where "broadcast_op rdt f a b = Inr r" and "tdtype r = rdt" and "shape r = s"
    and "consistent r"
    and "\<And>i. entry r i = f (entry a (broadcast_index (shape a) i))
                            (entry b (broadcast_index (shape b) i))"
proof -
  let ?r = "\<lparr>tdtype = rdt,
             get_shape = (if is_fully_defined (get_shape a) \<and> is_fully_defined (get_shape b)
                          then Some s else None),
             shape = s,
             entry = (\<lambda>i. f (entry a (broadcast_index (shape a) i))
                             (entry b (broadcast_index (shape b) i)))\<rparr>"
  have "broadcast_op rdt f a b = Inr ?r" using assms by (simp add: broadcast_op_def)
  moreover have "consistent ?r" by (simp add: consistent_def)
  ultimately show ?thesis using that [of ?r] by simp
qed

lemma consistent_map_tensor: "consistent (map_tensor f t) = consistent t"
  by (simp add: consistent_def map_tensor_def split: option.splits)

lemma complementE:
  obtains q where "sub (constant_t 1 (tdtype x)) x = Inr q" and "tdtype q = tdtype x"
    and "shape q = shape x" and "consistent q"
    and "\<And>i. valid_index (shape x) i \<Longrightarrow> entry q i = 1 - entry x i"
proof -
  have "broadcast_shape (shape (constant_t 1 (tdtype x))) (shape x) = Some (shape x)"
    by (simp add: constant_t_def broadcast_shape_Nil_left)
  from broadcast_opE [OF this, of "tdtype x" "\<lambda>x y. x - y"]
  obtain q where q: "sub (constant_t 1 (tdtype x)) x = Inr q" "tdtype q = tdtype x"
      "shape q = shape x" "consistent q"
      "\<And>i. entry q i = entry (constant_t 1 (tdtype x))
                            (broadcast_index (shape (constant_t 1 (tdtype x))) i)
                  - entry x (broadcast_index (shape x) i)"
    unfolding sub_def by (auto simp: constant_t_def)
  have "\<And>i. valid_index (shape x) i \<Longrightarrow> entry q i = 1 - entry x i"
    by (simp add: q(5) constant_t_def broadcast_index_same)
  with q show ?thesis using that by blast
qed

lemma Bernoulli_init_cases:
  assumes "Bernoulli_init lg pp dty va ans nm = Inr d"
  obtains (from_logits) l where "lg = Some l" and "pp = None" and "self_logits d = l"
      and "self_p d = sigmoid_t l"
  | (from_p) x where "lg = None" and "pp = Some x" and "self_p d = x"
      and "shape (self_logits d) = shape x" and "consistent (self_logits d)"
      and "\<And>i. valid_index (shape x) i \<Longrightarrow>
             entry (self_logits d) i = ln (entry x i / (1 - entry x i))"
proof (cases lg)
  case None
  note lgN = this
  show ?thesis
  proof (cases pp)
    case None
    with lgN assms show ?thesis
      by (simp add: Bernoulli_init_def get_logits_and_prob_def and_then_def)
  next
    case (Some x)
    obtain c where c: "sub (constant_t 1 (tdtype x)) x = Inr c" "shape c = shape x"
        "\<And>i. valid_index (shape x) i \<Longrightarrow> entry c i = 1 - entry x i"
      using complementE [of x] by blast
    have "broadcast_shape (shape x) (shape c) = Some (shape x)"
      by (simp add: c(2) broadcast_shape_same)
    from broadcast_opE [OF this, of "tdtype x" "\<lambda>x y. x / y"]
    obtain odds where o: "div_t x c = Inr odds" "shape odds = shape x" "consistent odds"
        "\<And>i. entry odds i = entry x (broadcast_index (shape x) i)
                               / entry c (broadcast_index (shape c) i)"
      unfolding div_t_def by blast
    have d: "self_logits d = log_t odds" "self_p d = x"
      using assms lgN Some c(1) o(1)
      by (auto simp: Bernoulli_init_def get_logits_and_prob_def and_then_def identity_def)
    have "shape (self_logits d) = shape x" by (simp add: d log_t_def map_tensor_def o(2))
    moreover have "consistent (self_logits d)"
      using o(3) by (simp add: d log_t_def consistent_map_tensor)
    moreover have "\<And>i. valid_index (shape x) i \<Longrightarrow>
             entry (self_logits d) i = ln (entry x i / (1 - entry x i))"
      by (simp add: d log_t_def map_tensor_def o(4) c(2) c(3) broadcast_index_same)
    ultimately show ?thesis using from_p [of x] lgN Some d(2) by blast
  qed
next
  case (Some l)
  note lgS = this
  show ?thesis
  proof (cases pp)
    case None
    obtain q where "sub (constant_t 1 (tdtype (sigmoid_t l))) (sigmoid_t l) = Inr q"
      using complementE [of "sigmoid_t l"] by blast
    with assms lgS None have "self_logits d = l" "self_p d = sigmoid_t l"
      by (auto simp: Bernoulli_init_def get_logits_and_prob_def and_then_def identity_def)
    then show ?thesis using from_logits [of l] lgS None by blast
  next
    case (Some x)
    with lgS assms show ?thesis
      by (simp add: Bernoulli_init_def get_logits_and_prob_def and_then_def)
  qed
qed

lemma Bernoulli_init_fields:
  assumes "Bernoulli_init lg pp dty va ans nm = Inr d"
  shows "self_dtype d = dty" and "shape (self_p d) = shape (self_logits d)"
    and "shape (self_q d) = shape (self_p d)"
    and "sub (constant_t 1 (tdtype (self_p d))) (self_p d) = Inr (self_q d)"
    and "valid_index (shape (self_p d)) i \<Longrightarrow> entry (self_q d) i = 1 - entry (self_p d) i"
proof -
  obtain l x where lx: "get_logits_and_prob lg pp va = Inr (l, x)"
    using assms by (auto simp: Bernoulli_init_def and_then_def split: sum.splits)
  obtain q where q: "sub (constant_t 1 (tdtype x)) x = Inr q"
      "shape q = shape x" "\<And>i. valid_index (shape x) i \<Longrightarrow> entry q i = 1 - entry x i"
    using complementE [of x] by blast
  have d: "self_logits d = l" "self_p d = x" "self_q d = q" "self_dtype d = dty"
    using assms lx q(1) by (auto simp: Bernoulli_init_def and_then_def)
  show "self_dtype d = dty" by (rule d)
  show "shape (self_q d) = shape (self_p d)" by (simp add: d q)
  show "sub (constant_t 1 (tdtype (self_p d))) (self_p d) = Inr (self_q d)" by (simp add: d q)
  show "valid_index (shape (self_p d)) i \<Longrightarrow> entry (self_q d) i = 1 - entry (self_p d) i"
    by (simp add: d q)
  show "shape (self_p d) = shape (self_logits d)"
    using assms by (cases rule: Bernoulli_init_cases) (simp_all add: sigmoid_t_def map_tensor_def)
qed

lemma Bernoulli_init_logits_Inr: "\<exists>d. Bernoulli_init (Some l) None dty va ans nm = Inr d"
proof -
  obtain q where "sub (constant_t 1 (tdtype (sigmoid_t l))) (sigmoid_t l) = Inr q"
    using complementE [of "sigmoid_t l"] by blast
  then show ?thesis
    by (simp add: Bernoulli_init_def get_logits_and_prob_def and_then_def identity_def)
qed

lemma Bernoulli_init_p_Inr: "\<exists>d. Bernoulli_init None (Some x) dty va ans nm = Inr d"
proof -
  obtain c where c: "sub (constant_t 1 (tdtype x)) x = Inr c" "shape c = shape x"
    using complementE [of x] by blast
  have "broadcast_shape (shape x) (shape c) = Some (shape x)"
    by (simp add: c(2) broadcast_shape_same)
  from broadcast_opE [OF this, of "tdtype x" "\<lambda>x y. x / y"]
  obtain odds where "div_t x c = Inr odds" unfolding div_t_def by blast
  with c(1) show ?thesis
    by (simp add: Bernoulli_init_def get_logits_and_prob_def and_then_def identity_def)
qed

lemmas unary_defs = neg_def exp_t_def log_t_def sqrt_t_def sigmoid_t_def softplus_t_def
  ones_like_def

lemma map_tensor_simps [simp]:
  "shape (map_tensor f t) = shape t"
  "entry (map_tensor f t) i = f (entry t i)"
  "tdtype (map_tensor f t) = tdtype t"
  "get_shape (map_tensor f t) = get_shape t"
  by (simp_all add: map_tensor_def)

lemma constant_t_simps [simp]:
  "shape (constant_t c dty) = []"
  "entry (constant_t c dty) i = c"
  "tdtype (constant_t c dty) = dty"
  by (simp_all add: constant_t_def)

lemma cast_bool_simps [simp]:
  "shape (cast_bool t dty) = shape t"
  "entry (cast_bool t dty) i = (if entry t i then 1 else 0)"
  "tdtype (cast_bool t dty) = dty"
  by (simp_all add: cast_bool_def)

lemma cast_simps [simp]:
  "shape (cast t dty) = shape t"
  "entry (cast t dty) i = entry t i"
  "tdtype (cast t dty) = dty"
  "get_shape (cast t dty) = get_shape t"
  by (simp_all add: cast_def)

lemma broadcast_op_sameE:
  assumes "shape a = shape b"
  obtains r where "broadcast_op rdt f a b = Inr r" and "tdtype r = rdt"
    and "shape r = shape a" and "consistent r"
    and "\<And>i. valid_index (shape a) i \<Longrightarrow> entry r i = f (entry a i) (entry b i)"
proof -
  have "broadcast_shape (shape a) (shape b) = Some (shape a)"
    by (simp add: assms [symmetric] broadcast_shape_same)
  from broadcast_opE [OF this, of rdt f]
  obtain r where r: "broadcast_op rdt f a b = Inr r" "tdtype r = rdt" "shape r = shape a"
      "consistent r"
      "\<And>i. entry r i = f (entry a (broadcast_index (shape a) i))
                          (entry b (broadcast_index (shape b) i))"
    by blast
  have "\<And>i. valid_index (shape a) i \<Longrightarrow> entry r i = f (entry a i) (entry b i)"
    using assms by (simp add: r(5) broadcast_index_same)
  with r show ?thesis using that by blast
qed

lemma and_then_Inr [simp]: "and_then (Inr x) f = f x"
  by (simp add: and_then_def)

lemma and_then_Inl [simp]: "and_then (Inl e) f = Inl e"
  by (simp add: and_then_def)

lemma broadcast_op_Some:
  "broadcast_shape (shape a) (shape b) = Some s \<Longrightarrow>
   broadcast_op rdt f a b =
     Inr \<lparr>tdtype = rdt,
          get_shape = (if is_fully_defined (get_shape a) \<and> is_fully_defined (get_shape b)
                       then Some s else None),
          shape = s,
          entry = (\<lambda>i. f (entry a (broadcast_index (shape a) i))
                          (entry b (broadcast_index (shape b) i)))\<rparr>"
  by (simp add: broadcast_op_def)

lemma broadcast_op_same:
  "shape b = shape a \<Longrightarrow>
   broadcast_op rdt f a b =
     Inr \<lparr>tdtype = rdt,
          get_shape = (if is_fully_defined (get_shape a) \<and> is_fully_defined (get_shape b)
                       then Some (shape a) else None),
          shape = shape a,
          entry = (\<lambda>i. f (entry a (broadcast_index (shape a) i))
                          (entry b (broadcast_index (shape a) i)))\<rparr>"
  by (simp add: broadcast_op_Some broadcast_shape_same)

lemmas binary_defs = add_def sub_def mul_def div_t_def less_t_def greater_def

lemma broadcast_op_const_right:
  "broadcast_op rdt f a (constant_t c dty) =
     Inr \<lparr>tdtype = rdt,
          get_shape = (if is_fully_defined (get_shape a) then Some (shape a) else None),
          shape = shape a,
          entry = (\<lambda>i. f (entry a (broadcast_index (shape a) i)) c)\<rparr>"
  by (simp add: broadcast_op_Some [of _ _ "shape a"] broadcast_shape_Nil_right
      constant_t_def is_fully_defined_def)

lemma broadcast_op_const_left:
  "broadcast_op rdt f (constant_t c dty) b =
     Inr \<lparr>tdtype = rdt,
          get_shape = (if is_fully_defined (get_shape b) then Some (shape b) else None),
          shape = shape b,
          entry = (\<lambda>i. f c (entry b (broadcast_index (shape b) i)))\<rparr>"
  by (simp add: broadcast_op_Some [of _ _ "shape b"] broadcast_shape_Nil_left
      constant_t_def is_fully_defined_def)

lemma Bernoulli_init_p_sigmoid:
  assumes "Bernoulli_init lg pp dty va ans nm = Inr d"
    and "\<forall>x i. pp = Some x \<longrightarrow> valid_index (shape x) i \<longrightarrow> 0 < entry x i \<and> entry x i < 1"
    and "valid_index (shape (self_logits d)) i"
  shows "entry (self_p d) i = sigmoid (entry (self_logits d) i)"
  using assms(1)
proof (cases rule: Bernoulli_init_cases)
  case (from_logits l)
  then show ?thesis by (simp add: unary_defs)
next
  case (from_p x)
  with assms(2,3) have v: "valid_index (shape x) i" and "0 < entry x i" "entry x i < 1"
    by auto
  then show ?thesis using from_p(3) from_p(6) [OF v] by (simp add: sigmoid_log_odds)
qed

section \<open>Sampling\<close>

lemma valid_index_Cons:
  "valid_index (n # s) i \<longleftrightarrow> (\<exists>k j. i = k # j \<and> k < n \<and> valid_index s j)"
  by (simp add: valid_index_def list_all2_Cons2)

lemma sample_n_Inr:
  assumes "Bernoulli_init lg pp dty va ans nm = Inr d"
    and "shape (random_uniform (n # batch_shape d) seed (tdtype (self_p d))) = n # batch_shape d"
  shows "\<exists>r. sample_n random_uniform d n seed = Inr r \<and> tdtype r = dty
    \<and> shape r = n # batch_shape d
    \<and> (\<forall>k j. k < n \<and> valid_index (batch_shape d) j \<longrightarrow>
          entry r (k # j) =
            (if entry (random_uniform (n # batch_shape d) seed (tdtype (self_p d))) (k # j)
                < entry (self_p d) j then 1 else 0))"
proof -
  let ?u = "random_uniform (n # batch_shape d) seed (tdtype (self_p d))"
  have sp: "shape (self_p d) = batch_shape d"
    using Bernoulli_init_fields(2) [OF assms(1)] by (simp add: batch_shape_def)
  have bs: "broadcast_shape (shape ?u) (shape (self_p d)) = Some (n # batch_shape d)"
    by (simp add: assms(2) sp broadcast_shape_Cons)
  have "\<And>k j. k < n \<Longrightarrow> valid_index (batch_shape d) j \<Longrightarrow>
      broadcast_index (n # batch_shape d) (k # j) = k # j"
    by (rule broadcast_index_same) (simp add: valid_index_Cons)
  then show ?thesis
    by (simp add: sample_n_def less_t_def broadcast_op_Some [OF bs] assms(2) sp
        broadcast_index_Cons Bernoulli_init_fields(1) [OF assms(1)])
qed

section \<open>Log-probability\<close>

lemma broadcast_pos_valid:
  "broadcast_dims a b = Some c \<Longrightarrow> list_all2 (\<lambda>k n. k < n) i c \<Longrightarrow>
   list_all2 (\<lambda>k n. k < n) (broadcast_pos a i) a
   \<and> list_all2 (\<lambda>k n. k < n) (broadcast_pos b i) b"
proof (induction a b arbitrary: c i rule: broadcast_dims.induct)
  case (1 ys)
  then show ?case using broadcast_pos_prefix [of i ys "[]"] by simp
next
  case (2 x xs)
  then show ?case using broadcast_pos_prefix [of i "x # xs" "[]"] by simp
next
  case (3 x xs y ys)
  then show ?case
    by (auto simp: list_all2_Cons2 split: if_splits)
qed

lemma broadcast_index_valid:
  assumes "broadcast_shape a b = Some c" and "valid_index c i"
  shows "valid_index a (broadcast_index a i)" and "valid_index b (broadcast_index b i)"
proof -
  from assms(1) have "broadcast_dims (rev a) (rev b) = Some (rev c)"
    by (auto simp: broadcast_shape_def)
  moreover from assms(2) have "list_all2 (\<lambda>k n. k < n) (rev i) (rev c)"
    by (simp add: valid_index_def)
  ultimately have "list_all2 (\<lambda>k n. k < n) (broadcast_pos (rev a) (rev i)) (rev a)
      \<and> list_all2 (\<lambda>k n. k < n) (broadcast_pos (rev b) (rev i)) (rev b)"
    by (rule broadcast_pos_valid)
  then show "valid_index a (broadcast_index a i)" and "valid_index b (broadcast_index b i)"
    by (simp_all add: valid_index_def broadcast_index_def list_all2_rev1)
qed

lemma consistent_cast: "consistent (cast t dty) = consistent t"
  by (simp add: consistent_def split: option.splits)

lemma ones_like_simps [simp]:
  "shape (ones_like t) = shape t"
  "entry (ones_like t) i = 1"
  "tdtype (ones_like t) = tdtype t"
  by (simp_all add: ones_like_def)

lemma log_prob_broadcast_branch:
  assumes "broadcast_shape (shape ev) (shape lg) = Some B"
  shows "\<exists>L E X. mul (ones_like ev) lg = Inr L \<and> mul (ones_like L) ev = Inr E
    \<and> shape L = B \<and> shape E = B
    \<and> sigmoid_cross_entropy_with_logits L E = Inr X \<and> shape X = B
    \<and> (\<forall>i. valid_index B i \<longrightarrow>
          entry X i = sigmoid_xent (entry lg (broadcast_index (shape lg) i))
                                   (entry ev (broadcast_index (shape ev) i)))"
proof -
  have b1: "broadcast_shape (shape (ones_like ev)) (shape lg) = Some B"
    using assms by simp
  obtain L where L: "mul (ones_like ev) lg = Inr L" "shape L = B"
    "\<And>i. entry L i = entry lg (broadcast_index (shape lg) i)"
    by (simp add: mul_def broadcast_op_Some [OF b1])
  have b2: "broadcast_shape (shape (ones_like L)) (shape ev) = Some B"
    using broadcast_shape_absorb [OF assms] by (simp add: L(2))
  obtain E where E: "mul (ones_like L) ev = Inr E" "shape E = B"
    "\<And>i. entry E i = entry ev (broadcast_index (shape ev) i)"
    by (simp add: mul_def broadcast_op_Some [OF b2])
  obtain X where X: "sigmoid_cross_entropy_with_logits L E = Inr X" "shape X = B"
    "\<And>i. entry X i = sigmoid_xent (entry L i) (entry E i)"
    by (simp add: sigmoid_cross_entropy_with_logits_def L(2) E(2))
  show ?thesis using L E X by auto
qed

lemma log_prob_direct_branch:
  assumes "shape ev = shape lg"
  shows "\<exists>X. sigmoid_cross_entropy_with_logits lg ev = Inr X \<and> shape X = shape lg
    \<and> (\<forall>i. valid_index (shape lg) i \<longrightarrow>
          entry X i = sigmoid_xent (entry lg (broadcast_index (shape lg) i))
                                   (entry ev (broadcast_index (shape ev) i)))"
  using assms by (simp add: sigmoid_cross_entropy_with_logits_def broadcast_index_same)

lemma log_prob_Inr:
  assumes "consistent event" and "consistent (self_logits d)"
    and "broadcast_shape (shape event) (shape (self_logits d)) = Some B"
  shows "\<exists>r. log_prob d event = Inr r \<and> shape r = B
    \<and> (\<forall>i. valid_index B i \<longrightarrow>
          entry r i = - sigmoid_xent
              (entry (self_logits d) (broadcast_index (shape (self_logits d)) i))
              (entry event (broadcast_index (shape event) i)))
    \<and> (let ev = cast event (tdtype (self_logits d)); logits = self_logits d
       in if \<not> is_fully_defined (get_shape ev) \<or> \<not> is_fully_defined (get_shape logits)
             \<or> get_shape ev \<noteq> get_shape logits
          then \<exists>L E X. mul (ones_like ev) logits = Inr L \<and> mul (ones_like L) ev = Inr E
                 \<and> shape L = B \<and> shape E = B
                 \<and> sigmoid_cross_entropy_with_logits L E = Inr X \<and> r = neg X
          else shape ev = B \<and> shape logits = B
                 \<and> (\<exists>X. sigmoid_cross_entropy_with_logits logits ev = Inr X \<and> r = neg X))"
proof -
  let ?ev = "cast event (tdtype (self_logits d))"
  let ?lg = "self_logits d"
  let ?c = "\<not> is_fully_defined (get_shape ?ev) \<or> \<not> is_fully_defined (get_shape ?lg)
             \<or> get_shape ?ev \<noteq> get_shape ?lg"
  have bs: "broadcast_shape (shape ?ev) (shape ?lg) = Some B" using assms(3) by simp
  show ?thesis
  proof (cases ?c)
    case True
    from log_prob_broadcast_branch [OF bs]
    obtain L E X where x: "mul (ones_like ?ev) ?lg = Inr L" "mul (ones_like L) ?ev = Inr E"
      "shape L = B" "shape E = B" "sigmoid_cross_entropy_with_logits L E = Inr X" "shape X = B"
      "\<forall>i. valid_index B i \<longrightarrow>
          entry X i = sigmoid_xent (entry ?lg (broadcast_index (shape ?lg) i))
                                   (entry ?ev (broadcast_index (shape ?ev) i))"
      by blast
    have "log_prob d event = Inr (neg X)"
      using True x(1,2,5) by (simp add: log_prob_def Let_def)
    with True x show ?thesis by (simp add: unary_defs Let_def)
  next
    case False
    then obtain s where s: "get_shape ?ev = Some s" "get_shape ?lg = Some s"
      by (auto simp: is_fully_defined_def)
    have se: "shape event = s" using assms(1) s(1) by (simp add: consistent_def)
    have sl: "shape ?lg = s" using assms(2) s(2) by (simp add: consistent_def)
    have B: "B = s" using assms(3) by (simp add: se sl broadcast_shape_same)
    have "shape ?ev = shape ?lg" by (simp add: se sl)
    from log_prob_direct_branch [OF this]
    obtain X where x: "sigmoid_cross_entropy_with_logits ?lg ?ev = Inr X" "shape X = shape ?lg"
      "\<forall>i. valid_index (shape ?lg) i \<longrightarrow>
          entry X i = sigmoid_xent (entry ?lg (broadcast_index (shape ?lg) i))
                                   (entry ?ev (broadcast_index (shape ?ev) i))"
      by blast
    have "log_prob d event = Inr (neg X)"
      using False x(1) by (simp add: log_prob_def Let_def)
    with False x show ?thesis by (simp add: unary_defs Let_def B se sl)
  qed
qed

lemma Bernoulli_init_name:
  "Bernoulli_init lg pp dty va ans nm = Inr d \<Longrightarrow>
   Bernoulli_init lg pp dty va ans nm' = Inr (d\<lparr>self_name := nm'\<rparr>)"
  by (auto simp: Bernoulli_init_def and_then_def split: sum.splits prod.splits)

section \<open>Entropy\<close>

lemmas float_defs = to_float_def exp_float_def log_float_def add_float_def

lemma broadcast_op_scalar_left:
  "shape a = [] \<Longrightarrow>
   broadcast_op rdt f a b =
     Inr \<lparr>tdtype = rdt,
          get_shape = (if is_fully_defined (get_shape a) \<and> is_fully_defined (get_shape b)
                       then Some (shape b) else None),
          shape = shape b,
          entry = (\<lambda>i. f (entry a []) (entry b (broadcast_index (shape b) i)))\<rparr>"
  by (simp add: broadcast_op_Some [of _ _ "shape b"] broadcast_shape_Nil_left
      broadcast_index_Nil)

lemma entropy_Inr:
  "\<exists>h. entropy d = Inr h \<and> shape h = shape (self_logits d)
     \<and> (\<forall>i. valid_index (shape (self_logits d)) i \<longrightarrow>
           entry h i =
             add_f (Finite (- entry (self_logits d) i * (sigmoid (entry (self_logits d) i) - 1)))
               (log_f (add_f (Finite 1)
                  (exp_f (tdtype (self_logits d)) (- entry (self_logits d) i)))))"
  by (simp add: entropy_def binary_defs unary_defs float_defs broadcast_op_same
      broadcast_op_const_right broadcast_op_scalar_left broadcast_index_same)

lemma exp_100_overflows: "overflow_bound DT_float32 \<le> exp (100 :: real)"
proof -
  have "(5/2 :: real) \<le> exp 1"
    using exp_lower_Taylor_quadratic [of "1::real"] by simp
  hence "(5/2 :: real) ^ 100 \<le> exp 1 ^ 100" by (intro power_mono) simp_all
  also have "exp (1::real) ^ 100 = exp 100"
    using exp_of_nat_mult [of 100 "1::real"] by simp
  finally have "(5/2 :: real) ^ 100 \<le> exp 100" .
  moreover have "(2 :: real) ^ 128 \<le> (5/2) ^ 100"
  proof -
    have "(2 :: real) ^ 128 * 2 ^ 100 \<le> 5 ^ 100" by simp
    hence "(2 :: real) ^ 128 \<le> 5 ^ 100 / 2 ^ 100" by (simp add: pos_le_divide_eq)
    thus ?thesis by (simp add: power_divide)
  qed
  ultimately show ?thesis by (simp add: overflow_bound_def)
qed

section \<open>Properties of the distribution\<close>

text \<open>
  C1. Constructing a Bernoulli distribution fails with the argument error \<open>ValueError\<close>
  exactly when both of \<open>logits\<close> and \<open>p\<close> are supplied or neither is. When only the
  logits are supplied, construction succeeds, keeps them and sets \<open>p\<close> to their sigmoid;
  when only \<open>p\<close> is supplied, construction succeeds, keeps it and gives the logits the
  shape of \<open>p\<close> and, wherever \<open>p\<close> is strictly between zero and one, the log-odds of
  \<open>p\<close>.
\<close>

theorem Bernoulli_init_argument_error:
  "(Bernoulli_init lg pp dty va ans nm = Inl ValueError \<longleftrightarrow> ((lg = None) = (pp = None)))
   \<and> (\<forall>l. lg = Some l \<and> pp = None \<longrightarrow>
         (\<exists>d. Bernoulli_init lg pp dty va ans nm = Inr d
              \<and> self_logits d = l \<and> self_p d = sigmoid_t l))
   \<and> (\<forall>x. lg = None \<and> pp = Some x \<longrightarrow>
         (\<exists>d. Bernoulli_init lg pp dty va ans nm = Inr d
              \<and> self_p d = x \<and> shape (self_logits d) = shape x
              \<and> (\<forall>i. valid_index (shape x) i \<and> 0 < entry x i \<and> entry x i < 1 \<longrightarrow>
                     entry (self_logits d) i = ln (entry x i / (1 - entry x i)))))"
proof (intro conjI allI impI)
  show "Bernoulli_init lg pp dty va ans nm = Inl ValueError \<longleftrightarrow> ((lg = None) = (pp = None))"
  proof (cases lg; cases pp)
    fix l assume "lg = Some l" "pp = None"
    then show ?thesis using Bernoulli_init_logits_Inr [of l dty va ans nm] by auto
  next
    fix x assume "lg = None" "pp = Some x"
    then show ?thesis using Bernoulli_init_p_Inr [of x dty va ans nm] by auto
  qed (simp_all add: Bernoulli_init_def get_logits_and_prob_def and_then_def)
next
  fix l assume a: "lg = Some l \<and> pp = None"
  then obtain d where d: "Bernoulli_init lg pp dty va ans nm = Inr d"
    using Bernoulli_init_logits_Inr [of l dty va ans nm] by auto
  from d have "self_logits d = l \<and> self_p d = sigmoid_t l"
    using a by (cases rule: Bernoulli_init_cases) auto
  with d show "\<exists>d. Bernoulli_init lg pp dty va ans nm = Inr d
      \<and> self_logits d = l \<and> self_p d = sigmoid_t l"
    by blast
next
  fix x assume a: "lg = None \<and> pp = Some x"
  then obtain d where d: "Bernoulli_init lg pp dty va ans nm = Inr d"
    using Bernoulli_init_p_Inr [of x dty va ans nm] by auto
  from d have "self_p d = x \<and> shape (self_logits d) = shape x
      \<and> (\<forall>i. valid_index (shape x) i \<and> 0 < entry x i \<and> entry x i < 1 \<longrightarrow>
             entry (self_logits d) i = ln (entry x i / (1 - entry x i)))"
    using a by (cases rule: Bernoulli_init_cases) auto
  with d show "\<exists>d. Bernoulli_init lg pp dty va ans nm = Inr d
      \<and> self_p d = x \<and> shape (self_logits d) = shape x
      \<and> (\<forall>i. valid_index (shape x) i \<and> 0 < entry x i \<and> entry x i < 1 \<longrightarrow>
             entry (self_logits d) i = ln (entry x i / (1 - entry x i)))"
    by blast
qed

theorem Bernoulli_init_argument_error_witness:
  "Bernoulli_init None None DT_int32 False True ''Bernoulli'' = Inl ValueError
   \<and> Bernoulli_init (Some (constant_t 0 DT_float32)) (Some (constant_t (1/2) DT_float32))
        DT_int32 False True ''Bernoulli'' = Inl ValueError
   \<and> (\<exists>d. Bernoulli_init (Some (constant_t 0 DT_float32)) None DT_int32 False True ''Bernoulli''
            = Inr d
          \<and> self_logits d = constant_t 0 DT_float32
          \<and> self_p d = sigmoid_t (constant_t 0 DT_float32))
   \<and> (\<exists>d. Bernoulli_init None (Some (constant_t (1/2) DT_float32)) DT_int32 False True
            ''Bernoulli'' = Inr d
          \<and> self_p d = constant_t (1/2) DT_float32
          \<and> entry (self_logits d) [] = ln ((1/2) / (1 - 1/2)))"
proof -
  have v: "valid_index (shape (constant_t (1/2) DT_float32)) []"
    by (simp add: valid_index_def constant_t_def)
  have e: "entry (constant_t (1/2) DT_float32) [] = 1/2" by (simp add: constant_t_def)
  show ?thesis
    using Bernoulli_init_argument_error [of None None DT_int32 False True "''Bernoulli''"]
      Bernoulli_init_argument_error [of "Some (constant_t 0 DT_float32)"
        "Some (constant_t (1/2) DT_float32)" DT_int32 False True "''Bernoulli''"]
      Bernoulli_init_argument_error [of "Some (constant_t 0 DT_float32)" None
        DT_int32 False True "''Bernoulli''"]
      Bernoulli_init_argument_error [of None "Some (constant_t (1/2) DT_float32)"
        DT_int32 False True "''Bernoulli''"] v e
    by auto
qed

text \<open>
  C2. For every constructed Bernoulli instance whose probability lies in [0,1] at every
  position, the stored complement has the shape of \<open>p\<close> and equals \<open>1 - p\<close>
  everywhere (it is the result of that subtraction), the mean is \<open>p\<close>, and the variance
  is returned, has the shape of \<open>p\<close> and equals \<open>p * q\<close> at every position.
\<close>

theorem mean_variance_complement:
  assumes "Bernoulli_init lg pp dty va ans nm = Inr d"
    and "\<forall>i. valid_index (shape (self_p d)) i
           \<longrightarrow> 0 \<le> entry (self_p d) i \<and> entry (self_p d) i \<le> 1"
  shows "sub (constant_t 1 (tdtype (self_p d))) (self_p d) = Inr (self_q d)
    \<and> shape (self_q d) = shape (self_p d)
    \<and> (\<forall>i. valid_index (shape (self_p d)) i \<longrightarrow> entry (self_q d) i = 1 - entry (self_p d) i)
    \<and> mean d = self_p d
    \<and> (\<exists>v. variance d = Inr v \<and> shape v = shape (self_p d)
          \<and> (\<forall>i. valid_index (shape (self_p d)) i
                 \<longrightarrow> entry v i = entry (self_p d) i * entry (self_q d) i))"
proof -
  note f = Bernoulli_init_fields [OF assms(1)]
  from broadcast_op_sameE [OF f(3), of "tdtype (self_q d)" "\<lambda>x y. x * y"]
  obtain v where v: "variance d = Inr v" "shape v = shape (self_q d)"
      "\<And>i. valid_index (shape (self_q d)) i \<Longrightarrow> entry v i = entry (self_q d) i * entry (self_p d) i"
    unfolding variance_def mul_def by blast
  have "\<exists>v. variance d = Inr v \<and> shape v = shape (self_p d)
          \<and> (\<forall>i. valid_index (shape (self_p d)) i
                 \<longrightarrow> entry v i = entry (self_p d) i * entry (self_q d) i)"
    using v f(3) by (auto simp: mult.commute)
  moreover have "mean d = self_p d" by (simp add: mean_def identity_def)
  ultimately show ?thesis using f by blast
qed

theorem mean_variance_complement_witness:
  "\<exists>d. Bernoulli_init None (Some (constant_t (1/4) DT_float32)) DT_int32 False True
          ''Bernoulli'' = Inr d
     \<and> entry (self_p d) [] = 1/4 \<and> entry (self_q d) [] = 3/4 \<and> mean d = self_p d
     \<and> (\<exists>v. variance d = Inr v \<and> shape v = [] \<and> entry v [] = 3/16)"
proof -
  obtain d where d: "Bernoulli_init None (Some (constant_t (1/4) DT_float32)) DT_int32 False
      True ''Bernoulli'' = Inr d"
    using Bernoulli_init_p_Inr by blast
  have p: "self_p d = constant_t (1/4) DT_float32"
    using d by (cases rule: Bernoulli_init_cases) simp_all
  have h: "\<forall>i. valid_index (shape (self_p d)) i
           \<longrightarrow> 0 \<le> entry (self_p d) i \<and> entry (self_p d) i \<le> 1"
    by (simp add: p)
  have v: "valid_index (shape (self_p d)) []" by (simp add: p valid_index_def)
  from mean_variance_complement [OF d h] v
  obtain w where q: "entry (self_q d) [] = 1 - entry (self_p d) []" and m: "mean d = self_p d"
    and w: "variance d = Inr w" "shape w = shape (self_p d)"
      "entry w [] = entry (self_p d) [] * entry (self_q d) []"
    by blast
  have "entry (self_q d) [] = 3/4" "entry w [] = 3/16" "shape w = []"
    using q w by (simp_all add: p)
  with d m w(1) show ?thesis by (simp add: p)
qed

text \<open>
  C3. For a constructed Bernoulli instance and an event with entries in {0,1} whose shape
  broadcasts with the batch shape, the log-probability and the probability are both
  returned, and the probability is the elementwise exponential of the log-probability of
  the same event.
\<close>

theorem prob_is_exp_log_prob:
  assumes "Bernoulli_init lg pp dty va ans nm = Inr d"
    and "consistent event" and "consistent (self_logits d)"
    and "broadcast_shape (shape event) (batch_shape d) = Some B"
    and "\<forall>i. valid_index (shape event) i \<longrightarrow> entry event i = 0 \<or> entry event i = 1"
  shows "\<exists>lp pr. log_prob d event = Inr lp \<and> prob d event = Inr pr \<and> pr = exp_t lp
    \<and> shape lp = B \<and> shape pr = B \<and> (\<forall>i. entry pr i = exp (entry lp i))"
proof -
  have "broadcast_shape (shape event) (shape (self_logits d)) = Some B"
    using assms(4) by (simp add: batch_shape_def)
  from log_prob_Inr [OF assms(2,3) this]
  obtain lp where lp: "log_prob d event = Inr lp" "shape lp = B" by blast
  have "prob d event = Inr (exp_t lp)" by (simp add: prob_def lp(1))
  with lp show ?thesis by (simp add: unary_defs)
qed

theorem prob_is_exp_log_prob_witness:
  "\<exists>d lp pr. Bernoulli_init (Some example_logits) None DT_int32 False True ''Bernoulli''
       = Inr d
     \<and> log_prob d (constant_t 1 DT_int32) = Inr lp \<and> prob d (constant_t 1 DT_int32) = Inr pr
     \<and> shape pr = [2] \<and> entry pr [0] = exp (entry lp [0])"
proof -
  obtain d where d: "Bernoulli_init (Some example_logits) None DT_int32 False True
      ''Bernoulli'' = Inr d"
    using Bernoulli_init_logits_Inr by blast
  have l: "self_logits d = example_logits"
    using d by (cases rule: Bernoulli_init_cases) simp_all
  have c1: "consistent (constant_t 1 DT_int32)" by (simp add: consistent_def constant_t_def)
  have c2: "consistent (self_logits d)" by (simp add: l consistent_def example_logits_def)
  have bs: "broadcast_shape (shape (constant_t 1 DT_int32)) (batch_shape d) = Some [2]"
    by (simp add: batch_shape_def l example_logits_def broadcast_shape_Nil_left)
  have y: "\<forall>i. valid_index (shape (constant_t 1 DT_int32)) i \<longrightarrow>
      entry (constant_t 1 DT_int32) i = 0 \<or> entry (constant_t 1 DT_int32) i = 1"
    by simp
  from prob_is_exp_log_prob [OF d c1 c2 bs y] d show ?thesis by blast
qed

text \<open>
  C4. For every constructed Bernoulli instance with finite logits (logits that were
  supplied, or derived from a probability strictly between zero and one), the KL
  divergence of the instance from itself is returned, has the batch shape and is zero at
  every position.
\<close>

theorem kl_self_is_zero:
  assumes "Bernoulli_init lg pp dty va ans nm = Inr a"
    and "\<forall>x i. pp = Some x \<longrightarrow> valid_index (shape x) i \<longrightarrow> 0 < entry x i \<and> entry x i < 1"
  shows "\<exists>r. kl_bernoulli_bernoulli a a = Inr r \<and> shape r = batch_shape a
    \<and> (\<forall>i. valid_index (shape r) i \<longrightarrow> entry r i = 0)"
proof -
  obtain r where r: "kl_bernoulli_bernoulli a a = Inr r" "shape r = shape (self_logits a)"
    "\<And>i. valid_index (shape (self_logits a)) i \<Longrightarrow> entry r i = 0"
    by (simp add: kl_bernoulli_bernoulli_def binary_defs unary_defs broadcast_op_same
        broadcast_index_same)
  then show ?thesis by (auto simp: batch_shape_def)
qed

theorem kl_self_is_zero_witness:
  "\<exists>a r. Bernoulli_init None (Some (constant_t (1/4) DT_float32)) DT_int32 False True
            ''Bernoulli'' = Inr a
     \<and> kl_bernoulli_bernoulli a a = Inr r \<and> shape r = [] \<and> entry r [] = 0"
proof -
  obtain a where a: "Bernoulli_init None (Some (constant_t (1/4) DT_float32)) DT_int32 False
      True ''Bernoulli'' = Inr a"
    using Bernoulli_init_p_Inr by blast
  have h: "\<forall>x i. Some (constant_t (1/4) DT_float32) = Some x \<longrightarrow> valid_index (shape x) i
      \<longrightarrow> 0 < entry x i \<and> entry x i < 1"
    by auto
  have s: "batch_shape a = []"
    using a by (cases rule: Bernoulli_init_cases) (simp_all add: batch_shape_def)
  from kl_self_is_zero [OF a h]
  obtain r where r: "kl_bernoulli_bernoulli a a = Inr r" "shape r = batch_shape a"
    "\<forall>i. valid_index (shape r) i \<longrightarrow> entry r i = 0"
    by blast
  have "valid_index (shape r) []" by (simp add: r(2) s valid_index_def)
  with r(3) have "entry r [] = 0" by blast
  with a r s show ?thesis by auto
qed

text \<open>
  C5. For every constructed Bernoulli instance the mode is returned with the declared
  sample dtype and the shape of \<open>p\<close>; its entry is one exactly at the positions where
  \<open>p > q\<close> and zero at all other positions, in particular at a tie \<open>p = q = 0.5\<close>.
\<close>

theorem mode_one_iff_p_greater_q:
  assumes "Bernoulli_init lg pp dty va ans nm = Inr d"
  shows "\<exists>m. mode d = Inr m \<and> tdtype m = dty \<and> shape m = shape (self_p d)
    \<and> (\<forall>i. valid_index (shape m) i \<longrightarrow>
          (entry m i = 1 \<longleftrightarrow> entry (self_p d) i > entry (self_q d) i)
          \<and> (entry m i = 0 \<longleftrightarrow> \<not> entry (self_p d) i > entry (self_q d) i)
          \<and> (entry (self_p d) i = 1/2 \<longrightarrow> entry (self_q d) i = 1/2 \<and> entry m i = 0))"
proof -
  note f = Bernoulli_init_fields [OF assms]
  from broadcast_op_sameE [OF f(3) [symmetric], of DT_bool "\<lambda>x y. x > y"]
  obtain b where b: "greater (self_p d) (self_q d) = Inr b" "shape b = shape (self_p d)"
      "\<And>i. valid_index (shape (self_p d)) i \<Longrightarrow>
         entry b i = (entry (self_p d) i > entry (self_q d) i)"
    unfolding greater_def by blast
  let ?m = "cast_bool b (self_dtype d)"
  have "mode d = Inr ?m" by (simp add: mode_def and_then_def b(1))
  moreover have "tdtype ?m = dty" "shape ?m = shape (self_p d)"
    by (simp_all add: b(2) f(1))
  moreover have "\<forall>i. valid_index (shape ?m) i \<longrightarrow>
          (entry ?m i = 1 \<longleftrightarrow> entry (self_p d) i > entry (self_q d) i)
          \<and> (entry ?m i = 0 \<longleftrightarrow> \<not> entry (self_p d) i > entry (self_q d) i)
          \<and> (entry (self_p d) i = 1/2 \<longrightarrow> entry (self_q d) i = 1/2 \<and> entry ?m i = 0)"
    using f(5) by (simp add: b(2) b(3))
  ultimately show ?thesis by blast
qed

theorem mode_one_iff_p_greater_q_witness:
  "\<exists>d m. Bernoulli_init None (Some (constant_t (1/2) DT_float32)) DT_int32 False True
          ''Bernoulli'' = Inr d
     \<and> mode d = Inr m \<and> tdtype m = DT_int32 \<and> shape m = [] \<and> entry m [] = 0"
proof -
  obtain d where d: "Bernoulli_init None (Some (constant_t (1/2) DT_float32)) DT_int32 False
      True ''Bernoulli'' = Inr d"
    using Bernoulli_init_p_Inr by blast
  have p: "self_p d = constant_t (1/2) DT_float32"
    using d by (cases rule: Bernoulli_init_cases) simp_all
  have dt: "self_dtype d = DT_int32" using Bernoulli_init_fields(1) [OF d] .
  from mode_one_iff_p_greater_q [OF d]
  obtain m where m: "mode d = Inr m" "tdtype m = DT_int32" "shape m = shape (self_p d)"
    and e: "\<forall>i. valid_index (shape m) i \<longrightarrow>
          (entry m i = 1 \<longleftrightarrow> entry (self_p d) i > entry (self_q d) i)
          \<and> (entry m i = 0 \<longleftrightarrow> \<not> entry (self_p d) i > entry (self_q d) i)
          \<and> (entry (self_p d) i = 1/2 \<longrightarrow> entry (self_q d) i = 1/2 \<and> entry m i = 0)"
    by blast
  have s: "shape m = []" by (simp add: m(3) p)
  have "valid_index (shape m) []" by (simp add: s valid_index_def)
  with e have "entry (self_p d) [] = 1/2 \<longrightarrow> entry m [] = 0" by blast
  hence "entry m [] = 0" by (simp add: p)
  with d m s dt show ?thesis by auto
qed

text \<open>
  C6. For every sample count and seed, when the uniform noise has the requested shape and
  lies in [0,1), sampling from a constructed instance whose \<open>p\<close> is one everywhere yields
  one in every entry, and sampling from an instance whose \<open>p\<close> is zero everywhere yields
  zero in every entry.
\<close>

theorem sample_n_certain_outcomes:
  assumes "Bernoulli_init lg pp dty va ans nm = Inr d"
    and "\<forall>s sd t. shape (random_uniform s sd t) = s
          \<and> (\<forall>i. valid_index s i \<longrightarrow> 0 \<le> entry (random_uniform s sd t) i
                                    \<and> entry (random_uniform s sd t) i < 1)"
  shows "((\<forall>j. valid_index (shape (self_p d)) j \<longrightarrow> entry (self_p d) j = 1) \<longrightarrow>
           (\<exists>r. sample_n random_uniform d n seed = Inr r \<and> shape r = n # batch_shape d
              \<and> (\<forall>i. valid_index (shape r) i \<longrightarrow> entry r i = 1)))
       \<and> ((\<forall>j. valid_index (shape (self_p d)) j \<longrightarrow> entry (self_p d) j = 0) \<longrightarrow>
           (\<exists>r. sample_n random_uniform d n seed = Inr r \<and> shape r = n # batch_shape d
              \<and> (\<forall>i. valid_index (shape r) i \<longrightarrow> entry r i = 0)))"
proof -
  let ?u = "random_uniform (n # batch_shape d) seed (tdtype (self_p d))"
  have sp: "shape (self_p d) = batch_shape d"
    using Bernoulli_init_fields(2) [OF assms(1)] by (simp add: batch_shape_def)
  have su: "shape ?u = n # batch_shape d" using assms(2) by blast
  from sample_n_Inr [where random_uniform = random_uniform, OF assms(1) su]
  obtain r where r: "sample_n random_uniform d n seed = Inr r" "shape r = n # batch_shape d"
    "\<forall>k j. k < n \<and> valid_index (batch_shape d) j \<longrightarrow>
          entry r (k # j) = (if entry ?u (k # j) < entry (self_p d) j then 1 else 0)"
    by blast
  have range: "\<And>k j. k < n \<Longrightarrow> valid_index (batch_shape d) j \<Longrightarrow>
      0 \<le> entry ?u (k # j) \<and> entry ?u (k # j) < 1"
  proof -
    fix k j assume "k < n" "valid_index (batch_shape d) j"
    hence "valid_index (n # batch_shape d) (k # j)" by (simp add: valid_index_Cons)
    with assms(2) show "0 \<le> entry ?u (k # j) \<and> entry ?u (k # j) < 1" by blast
  qed
  have pos: "\<exists>k j. i = k # j \<and> k < n \<and> valid_index (batch_shape d) j
      \<and> entry r i = (if entry ?u (k # j) < entry (self_p d) j then 1 else 0)
      \<and> 0 \<le> entry ?u (k # j) \<and> entry ?u (k # j) < 1"
    if "valid_index (shape r) i" for i
  proof -
    from that obtain k j where kj: "i = k # j" "k < n" "valid_index (batch_shape d) j"
      by (auto simp: r(2) valid_index_Cons)
    with r(3) range [OF kj(2,3)] show ?thesis by blast
  qed
  have one: "\<forall>i. valid_index (shape r) i \<longrightarrow> entry r i = 1"
    if "\<forall>j. valid_index (shape (self_p d)) j \<longrightarrow> entry (self_p d) j = 1"
  proof (intro allI impI)
    fix i assume "valid_index (shape r) i"
    from pos [OF this] that show "entry r i = 1" by (auto simp: sp)
  qed
  have zero: "\<forall>i. valid_index (shape r) i \<longrightarrow> entry r i = 0"
    if "\<forall>j. valid_index (shape (self_p d)) j \<longrightarrow> entry (self_p d) j = 0"
  proof (intro allI impI)
    fix i assume "valid_index (shape r) i"
    from pos [OF this] that show "entry r i = 0" by (auto simp: sp)
  qed
  from one zero r(1,2) show ?thesis by blast
qed

theorem sample_n_certain_outcomes_witness:
  "(\<exists>d r. Bernoulli_init None (Some (constant_t 1 DT_float32)) DT_int32 False True
            ''Bernoulli'' = Inr d
      \<and> sample_n example_uniform d 3 (Some 7) = Inr r \<and> shape r = [3] \<and> entry r [2] = 1)
   \<and> (\<exists>d r. Bernoulli_init None (Some (constant_t 0 DT_float32)) DT_int32 False True
            ''Bernoulli'' = Inr d
      \<and> sample_n example_uniform d 3 (Some 7) = Inr r \<and> shape r = [3] \<and> entry r [2] = 0)"
proof -
  have u: "\<forall>s sd t. shape (example_uniform s sd t) = s
          \<and> (\<forall>i. valid_index s i \<longrightarrow> 0 \<le> entry (example_uniform s sd t) i
                                    \<and> entry (example_uniform s sd t) i < 1)"
    by (simp add: example_uniform_def)
  have v: "valid_index [3] [2]" by (simp add: valid_index_def)
  have "\<exists>d r. Bernoulli_init None (Some (constant_t c DT_float32)) DT_int32 False True
            ''Bernoulli'' = Inr d
      \<and> sample_n example_uniform d 3 (Some 7) = Inr r \<and> shape r = [3] \<and> entry r [2] = c"
    if c: "c = 0 \<or> c = 1" for c :: real
  proof -
    obtain d where d: "Bernoulli_init None (Some (constant_t c DT_float32)) DT_int32 False
        True ''Bernoulli'' = Inr d"
      using Bernoulli_init_p_Inr by blast
    have p: "self_p d = constant_t c DT_float32" and b: "batch_shape d = []"
      using d by (cases rule: Bernoulli_init_cases; simp add: batch_shape_def)+
    have e: "\<forall>j. valid_index (shape (self_p d)) j \<longrightarrow> entry (self_p d) j = c"
      by (simp add: p)
    from sample_n_certain_outcomes
      [where random_uniform = example_uniform and n = 3 and seed = "Some 7", OF d u] e c
    obtain r where "sample_n example_uniform d 3 (Some 7) = Inr r" "shape r = 3 # batch_shape d"
      "\<forall>i. valid_index (shape r) i \<longrightarrow> entry r i = c"
      by auto
    with d b v show ?thesis by auto
  qed
  from this [of 1] this [of 0] show ?thesis by simp
qed

text \<open>
  C7. Sampling \<open>n\<close> times from a constructed Bernoulli instance asks the uniform
  generator for noise of shape \<open>[n] + batch_shape\<close> (with the seed and the element type of
  \<open>p\<close>); when the noise has that shape, the result is returned with that shape and the
  declared sample dtype, and its entry at position \<open>k # j\<close> is one when the noise there
  is strictly less than \<open>p\<close> at \<open>j\<close>, and zero otherwise.
\<close>

theorem sample_n_compares_noise_with_p:
  assumes "Bernoulli_init lg pp dty va ans nm = Inr d"
    and "shape (random_uniform ([n] @ batch_shape d) seed (tdtype (self_p d)))
           = [n] @ batch_shape d"
  shows "\<exists>r. sample_n random_uniform d n seed = Inr r \<and> tdtype r = dty
    \<and> shape r = [n] @ batch_shape d
    \<and> (\<forall>k j. k < n \<and> valid_index (batch_shape d) j \<longrightarrow>
          entry r (k # j) =
            (if entry (random_uniform ([n] @ batch_shape d) seed (tdtype (self_p d))) (k # j)
                < entry (self_p d) j then 1 else 0))"
  using sample_n_Inr [where random_uniform = random_uniform and n = n and seed = seed,
      OF assms(1)] assms(2) by simp

theorem sample_n_compares_noise_with_p_witness:
  "\<exists>d r. Bernoulli_init None (Some (constant_t (3/4) DT_float32)) DT_int32 False True
            ''Bernoulli'' = Inr d
     \<and> sample_n example_uniform d 3 (Some 7) = Inr r \<and> tdtype r = DT_int32
     \<and> shape r = [3] \<and> entry r [1] = 1"
proof -
  obtain d where d: "Bernoulli_init None (Some (constant_t (3/4) DT_float32)) DT_int32 False
      True ''Bernoulli'' = Inr d"
    using Bernoulli_init_p_Inr by blast
  have p: "self_p d = constant_t (3/4) DT_float32" and b: "batch_shape d = []"
    using d by (cases rule: Bernoulli_init_cases; simp add: batch_shape_def)+
  have dt: "self_dtype d = DT_int32" using Bernoulli_init_fields(1) [OF d] .
  have u: "shape (example_uniform ([3] @ batch_shape d) (Some 7) (tdtype (self_p d)))
      = [3] @ batch_shape d"
    by (simp add: example_uniform_def)
  from sample_n_compares_noise_with_p
    [where random_uniform = example_uniform and n = 3 and seed = "Some 7", OF d u]
  obtain r where r: "sample_n example_uniform d 3 (Some 7) = Inr r" "tdtype r = DT_int32"
    "shape r = [3] @ batch_shape d"
    "\<forall>k j. k < 3 \<and> valid_index (batch_shape d) j \<longrightarrow>
          entry r (k # j) =
            (if entry (example_uniform ([3] @ batch_shape d) (Some 7) (tdtype (self_p d))) (k # j)
                < entry (self_p d) j then 1 else 0)"
    by blast
  have "(1::nat) < 3 \<and> valid_index (batch_shape d) []" by (simp add: b valid_index_def)
  with r(4) have "entry r [1] = 1" by (simp add: p example_uniform_def)
  with d r dt b show ?thesis by auto
qed

text \<open>
  C8. For a constructed Bernoulli instance and an event whose shape broadcasts with the
  batch shape to \<open>B\<close> (static shapes agreeing with the run-time shapes), the
  log-probability is returned with shape \<open>B\<close>. When one of the static shapes is not fully
  defined or they differ, the logits and the event are first both broadcast to \<open>B\<close>, and
  the result is the negated sigmoid cross-entropy of the broadcast tensors; otherwise both
  already have shape \<open>B\<close> and the result is the negated cross-entropy of the two. In
  both cases the entry at a position is the negated cross-entropy of the logit \<open>x\<close> and
  the event value \<open>y\<close> read there, and for finite logits and \<open>y\<close> in {0,1} it equals
  \<open>y * log p + (1 - y) * log (1 - p)\<close>.
\<close>

theorem log_prob_is_negative_cross_entropy:
  assumes "Bernoulli_init lg pp dty va ans nm = Inr d"
    and "consistent event" and "consistent (self_logits d)"
    and "broadcast_shape (shape event) (batch_shape d) = Some B"
  shows "\<exists>r. log_prob d event = Inr r \<and> shape r = B
    \<and> (let ev = cast event (tdtype (self_logits d)); logits = self_logits d
       in if \<not> is_fully_defined (get_shape ev) \<or> \<not> is_fully_defined (get_shape logits)
             \<or> get_shape ev \<noteq> get_shape logits
          then \<exists>L E X. mul (ones_like ev) logits = Inr L \<and> mul (ones_like L) ev = Inr E
                 \<and> shape L = B \<and> shape E = B
                 \<and> sigmoid_cross_entropy_with_logits L E = Inr X \<and> r = neg X
          else shape ev = B \<and> shape logits = B
                 \<and> (\<exists>X. sigmoid_cross_entropy_with_logits logits ev = Inr X \<and> r = neg X))
    \<and> (\<forall>i. valid_index B i \<longrightarrow>
          (let x = entry (self_logits d) (broadcast_index (batch_shape d) i);
               y = entry event (broadcast_index (shape event) i);
               p = entry (self_p d) (broadcast_index (batch_shape d) i)
           in entry r i = - sigmoid_xent x y
              \<and> ((\<forall>x i. pp = Some x \<longrightarrow> valid_index (shape x) i
                          \<longrightarrow> 0 < entry x i \<and> entry x i < 1)
                   \<and> (y = 0 \<or> y = 1)
                 \<longrightarrow> entry r i = y * ln p + (1 - y) * ln (1 - p))))"
proof -
  have bs: "broadcast_shape (shape event) (shape (self_logits d)) = Some B"
    using assms(4) by (simp add: batch_shape_def)
  from log_prob_Inr [OF assms(2,3) bs]
  obtain r where r: "log_prob d event = Inr r" "shape r = B"
    "\<forall>i. valid_index B i \<longrightarrow>
          entry r i = - sigmoid_xent
              (entry (self_logits d) (broadcast_index (shape (self_logits d)) i))
              (entry event (broadcast_index (shape event) i))"
    "let ev = cast event (tdtype (self_logits d)); logits = self_logits d
       in if \<not> is_fully_defined (get_shape ev) \<or> \<not> is_fully_defined (get_shape logits)
             \<or> get_shape ev \<noteq> get_shape logits
          then \<exists>L E X. mul (ones_like ev) logits = Inr L \<and> mul (ones_like L) ev = Inr E
                 \<and> shape L = B \<and> shape E = B
                 \<and> sigmoid_cross_entropy_with_logits L E = Inr X \<and> r = neg X
          else shape ev = B \<and> shape logits = B
                 \<and> (\<exists>X. sigmoid_cross_entropy_with_logits logits ev = Inr X \<and> r = neg X)"
    by blast
  have "\<forall>i. valid_index B i \<longrightarrow>
          (let x = entry (self_logits d) (broadcast_index (batch_shape d) i);
               y = entry event (broadcast_index (shape event) i);
               p = entry (self_p d) (broadcast_index (batch_shape d) i)
           in entry r i = - sigmoid_xent x y
              \<and> ((\<forall>x i. pp = Some x \<longrightarrow> valid_index (shape x) i
                          \<longrightarrow> 0 < entry x i \<and> entry x i < 1)
                   \<and> (y = 0 \<or> y = 1)
                 \<longrightarrow> entry r i = y * ln p + (1 - y) * ln (1 - p)))"
  proof (intro allI impI)
    fix i assume v: "valid_index B i"
    let ?j = "broadcast_index (batch_shape d) i"
    let ?x = "entry (self_logits d) ?j"
    let ?y = "entry event (broadcast_index (shape event) i)"
    let ?p = "entry (self_p d) ?j"
    have e: "entry r i = - sigmoid_xent ?x ?y" using r(3) v by (simp add: batch_shape_def)
    have vj: "valid_index (shape (self_logits d)) ?j"
      using broadcast_index_valid(2) [OF bs v] by (simp add: batch_shape_def)
    have "entry r i = ?y * ln ?p + (1 - ?y) * ln (1 - ?p)"
      if "\<forall>x i. pp = Some x \<longrightarrow> valid_index (shape x) i \<longrightarrow> 0 < entry x i \<and> entry x i < 1"
    proof -
      have "?p = sigmoid ?x" using Bernoulli_init_p_sigmoid [OF assms(1) that vj] .
      then show ?thesis using e sigmoid_xent_log_likelihood [of ?x ?y] by simp
    qed
    with e show "let x = ?x; y = ?y; p = ?p
           in entry r i = - sigmoid_xent x y
              \<and> ((\<forall>x i. pp = Some x \<longrightarrow> valid_index (shape x) i
                          \<longrightarrow> 0 < entry x i \<and> entry x i < 1)
                   \<and> (y = 0 \<or> y = 1)
                 \<longrightarrow> entry r i = y * ln p + (1 - y) * ln (1 - p))"
      by (simp add: Let_def)
  qed
  with r(1,2,4) show ?thesis by blast
qed

theorem log_prob_is_negative_cross_entropy_witness:
  "\<exists>d r. Bernoulli_init (Some example_logits) None DT_int32 False True ''Bernoulli'' = Inr d
     \<and> log_prob d (constant_t 1 DT_int32) = Inr r \<and> shape r = [2]
     \<and> entry r [0] = - sigmoid_xent 0 1 \<and> entry r [0] = ln (1/2)"
proof -
  obtain d where d: "Bernoulli_init (Some example_logits) None DT_int32 False True
      ''Bernoulli'' = Inr d"
    using Bernoulli_init_logits_Inr by blast
  have l: "self_logits d = example_logits" and p: "self_p d = sigmoid_t example_logits"
    using d by (cases rule: Bernoulli_init_cases; simp)+
  have c1: "consistent (constant_t 1 DT_int32)" by (simp add: consistent_def constant_t_def)
  have c2: "consistent (self_logits d)" by (simp add: l consistent_def example_logits_def)
  have b: "batch_shape d = [2]" by (simp add: batch_shape_def l example_logits_def)
  have bs: "broadcast_shape (shape (constant_t 1 DT_int32)) (batch_shape d) = Some [2]"
    by (simp add: b broadcast_shape_Nil_left)
  have v: "valid_index [2] [0]" by (simp add: valid_index_def)
  have j: "broadcast_index (batch_shape d) [0] = [0]"
    using broadcast_index_same [OF v] by (simp add: b)
  from log_prob_is_negative_cross_entropy [OF d c1 c2 bs]
  obtain r where r: "log_prob d (constant_t 1 DT_int32) = Inr r" "shape r = [2]"
    and e: "\<forall>i. valid_index [2] i \<longrightarrow>
          (let x = entry (self_logits d) (broadcast_index (batch_shape d) i);
               y = entry (constant_t 1 DT_int32)
                     (broadcast_index (shape (constant_t 1 DT_int32)) i);
               p = entry (self_p d) (broadcast_index (batch_shape d) i)
           in entry r i = - sigmoid_xent x y
              \<and> ((\<forall>x i. (None :: real tensor option) = Some x \<longrightarrow> valid_index (shape x) i
                          \<longrightarrow> 0 < entry x i \<and> entry x i < 1)
                   \<and> (y = 0 \<or> y = 1)
                 \<longrightarrow> entry r i = y * ln p + (1 - y) * ln (1 - p)))"
    by blast
  from e v have "let x = entry (self_logits d) (broadcast_index (batch_shape d) [0]);
               y = entry (constant_t 1 DT_int32)
                     (broadcast_index (shape (constant_t 1 DT_int32)) [0]);
               p = entry (self_p d) (broadcast_index (batch_shape d) [0])
           in entry r [0] = - sigmoid_xent x y
              \<and> ((\<forall>x i. (None :: real tensor option) = Some x \<longrightarrow> valid_index (shape x) i
                          \<longrightarrow> 0 < entry x i \<and> entry x i < 1)
                   \<and> (y = 0 \<or> y = 1)
                 \<longrightarrow> entry r [0] = y * ln p + (1 - y) * ln (1 - p))"
    by blast
  hence "entry r [0] = - sigmoid_xent 0 1 \<and> entry r [0] = ln (1/2)"
    by (simp add: Let_def j l p example_logits_def unary_defs sigmoid_def)
  with d r show ?thesis by blast
qed

text \<open>
  C9. The closed form of the entropy operation does not equal the reference entropy at
  every finite logit. For the instance constructed from the \<open>float32\<close> logit \<open>-100\<close>,
  \<open>exp(100)\<close> overflows, so \<open>log(1 + exp(-x))\<close> and with it the entropy is plus infinity,
  whereas the reference entropy \<open>-p * log p - q * log q\<close> is a finite number.
\<close>

theorem entropy_overflows_at_finite_logit:
  "\<exists>d h. Bernoulli_init (Some (constant_t (- 100) DT_float32)) None DT_int32 False True
            ''Bernoulli'' = Inr d
     \<and> entropy d = Inr h \<and> shape h = [] \<and> entry (self_logits d) [] = - 100
     \<and> entry h [] = PosInf
     \<and> entry h [] \<noteq> Finite (- entry (self_p d) [] * ln (entry (self_p d) [])
                              - entry (self_q d) [] * ln (entry (self_q d) []))"
proof -
  obtain d where d: "Bernoulli_init (Some (constant_t (- 100) DT_float32)) None DT_int32 False
      True ''Bernoulli'' = Inr d"
    using Bernoulli_init_logits_Inr by blast
  have l: "self_logits d = constant_t (- 100) DT_float32"
    using d by (cases rule: Bernoulli_init_cases) simp_all
  obtain h where h: "entropy d = Inr h" "shape h = shape (self_logits d)"
    "\<forall>i. valid_index (shape (self_logits d)) i \<longrightarrow>
           entry h i =
             add_f (Finite (- entry (self_logits d) i * (sigmoid (entry (self_logits d) i) - 1)))
               (log_f (add_f (Finite 1)
                  (exp_f (tdtype (self_logits d)) (- entry (self_logits d) i))))"
    using entropy_Inr [of d] by blast
  have "valid_index (shape (self_logits d)) []" by (simp add: l valid_index_def)
  with h(3) have "entry h [] =
      add_f (Finite (- entry (self_logits d) [] * (sigmoid (entry (self_logits d) []) - 1)))
        (log_f (add_f (Finite 1)
           (exp_f (tdtype (self_logits d)) (- entry (self_logits d) []))))"
    by blast
  hence "entry h [] = PosInf"
    using exp_100_overflows by (simp add: l exp_f_def)
  with d h(1,2) show ?thesis by (intro exI [of _ d] exI [of _ h]) (simp add: l)
qed

text \<open>
  C10. For every raw parameter tensor \<open>x\<close> and the same dtype and flags, constructing
  \<open>BernoulliWithSigmoidP\<close> with \<open>x\<close> and constructing the base Bernoulli with
  \<open>p = sigmoid x\<close> both succeed, and the two instances agree in \<open>p\<close>, \<open>q\<close>, the logits,
  the sample dtype, and in the results of mean, variance, mode, entropy, log-probability,
  probability and sampling.
\<close>

theorem BernoulliWithSigmoidP_agrees_with_base:
  "\<exists>d' d. BernoulliWithSigmoidP_init (Some x) dty va ans nm = Inr d'
     \<and> Bernoulli_init None (Some (sigmoid_t x)) dty va ans nm' = Inr d
     \<and> self_p d' = self_p d \<and> self_q d' = self_q d \<and> self_logits d' = self_logits d
     \<and> self_dtype d' = self_dtype d
     \<and> mean d' = mean d \<and> variance d' = variance d \<and> mode d' = mode d
     \<and> entropy d' = entropy d
     \<and> (\<forall>event. log_prob d' event = log_prob d event)
     \<and> (\<forall>event. prob d' event = prob d event)
     \<and> (\<forall>random_uniform n seed.
           sample_n random_uniform d' n seed = sample_n random_uniform d n seed)"
proof -
  obtain d where d: "Bernoulli_init None (Some (sigmoid_t x)) dty va ans nm' = Inr d"
    using Bernoulli_init_p_Inr by blast
  let ?d' = "d\<lparr>self_name := nm\<rparr>"
  have d': "BernoulliWithSigmoidP_init (Some x) dty va ans nm = Inr ?d'"
    using Bernoulli_init_name [OF d, of nm] by (simp add: BernoulliWithSigmoidP_init_def)
  have "mean ?d' = mean d" by (simp add: mean_def)
  moreover have "variance ?d' = variance d" by (simp add: variance_def)
  moreover have "mode ?d' = mode d" by (simp add: mode_def)
  moreover have "entropy ?d' = entropy d" by (simp add: entropy_def)
  moreover have lp: "\<forall>event. log_prob ?d' event = log_prob d event"
    by (simp add: log_prob_def)
  moreover have "\<forall>event. prob ?d' event = prob d event"
    using lp by (simp add: prob_def)
  moreover have "\<forall>random_uniform n seed.
      sample_n random_uniform ?d' n seed = sample_n random_uniform d n seed"
    by (simp add: sample_n_def batch_shape_def)
  ultimately show ?thesis using d d' by (intro exI [of _ ?d'] exI [of _ d]) simp
qed

theorem BernoulliWithSigmoidP_agrees_with_base_witness:
  "\<exists>d' d. BernoulliWithSigmoidP_init (Some example_logits) DT_int32 False True
        ''BernoulliWithSigmoidP'' = Inr d'
     \<and> Bernoulli_init None (Some (sigmoid_t example_logits)) DT_int32 False True
        ''Bernoulli'' = Inr d
     \<and> self_p d' = sigmoid_t example_logits \<and> self_p d = sigmoid_t example_logits
     \<and> self_q d' = self_q d \<and> self_logits d' = self_logits d
     \<and> mean d' = mean d \<and> variance d' = variance d \<and> mode d' = mode d
     \<and> entropy d' = entropy d
     \<and> log_prob d' (constant_t 1 DT_int32) = log_prob d (constant_t 1 DT_int32)
     \<and> prob d' (constant_t 1 DT_int32) = prob d (constant_t 1 DT_int32)
     \<and> sample_n example_uniform d' 3 (Some 7) = sample_n example_uniform d 3 (Some 7)"
proof -
  from BernoulliWithSigmoidP_agrees_with_base
    [of example_logits DT_int32 False True "''BernoulliWithSigmoidP''" "''Bernoulli''"]
  obtain d' d where a: "BernoulliWithSigmoidP_init (Some example_logits) DT_int32 False True
        ''BernoulliWithSigmoidP'' = Inr d'"
     "Bernoulli_init None (Some (sigmoid_t example_logits)) DT_int32 False True
        ''Bernoulli'' = Inr d"
     "self_p d' = self_p d" "self_q d' = self_q d" "self_logits d' = self_logits d"
     "mean d' = mean d" "variance d' = variance d" "mode d' = mode d"
     "entropy d' = entropy d"
     "\<forall>event. log_prob d' event = log_prob d event"
     "\<forall>event. prob d' event = prob d event"
     "\<forall>random_uniform n seed.
           sample_n random_uniform d' n seed = sample_n random_uniform d n seed"
    by blast
  have "self_p d = sigmoid_t example_logits"
    using a(2) by (cases rule: Bernoulli_init_cases) simp_all
  with a show ?thesis by (intro exI [of _ d'] exI [of _ d]) simp
qed

text \<open>
  X1. For every constructed Bernoulli instance with finite logits, the entropy is returned
  with the batch shape. At a position with logit \<open>x\<close>, probability \<open>p\<close> and complement
  \<open>q\<close>, where \<open>exp(-x)\<close> stays below the overflow bound of the logits' element type the
  entropy is the finite number \<open>-x * (sigmoid x - 1) + log (1 + exp (-x))\<close>, which equals
  \<open>-p * log p - q * log q\<close> with \<open>p = sigmoid x\<close> and \<open>q = 1 - p\<close>; where \<open>exp(-x)\<close>
  reaches the bound, the entropy is plus infinity.
\<close>

theorem entropy_closed_form_where_exp_is_finite:
  assumes "Bernoulli_init lg pp dty va ans nm = Inr d"
    and "\<forall>x i. pp = Some x \<longrightarrow> valid_index (shape x) i \<longrightarrow> 0 < entry x i \<and> entry x i < 1"
  shows "\<exists>h. entropy d = Inr h \<and> shape h = batch_shape d
    \<and> (\<forall>i. valid_index (shape h) i \<longrightarrow>
          (let x = entry (self_logits d) i; p = entry (self_p d) i; q = entry (self_q d) i
           in (exp (- x) < overflow_bound (tdtype (self_logits d)) \<longrightarrow>
                 entry h i = Finite (- x * (sigmoid x - 1) + ln (1 + exp (- x)))
                 \<and> entry h i = Finite (- p * ln p - q * ln q))
              \<and> (overflow_bound (tdtype (self_logits d)) \<le> exp (- x) \<longrightarrow> entry h i = PosInf)
              \<and> p = sigmoid x \<and> q = 1 - p))"
proof -
  obtain h where h: "entropy d = Inr h" "shape h = shape (self_logits d)"
    "\<forall>i. valid_index (shape (self_logits d)) i \<longrightarrow>
           entry h i =
             add_f (Finite (- entry (self_logits d) i * (sigmoid (entry (self_logits d) i) - 1)))
               (log_f (add_f (Finite 1)
                  (exp_f (tdtype (self_logits d)) (- entry (self_logits d) i))))"
    using entropy_Inr [of d] by blast
  note f = Bernoulli_init_fields [OF assms(1)]
  have "\<forall>i. valid_index (shape h) i \<longrightarrow>
          (let x = entry (self_logits d) i; p = entry (self_p d) i; q = entry (self_q d) i
           in (exp (- x) < overflow_bound (tdtype (self_logits d)) \<longrightarrow>
                 entry h i = Finite (- x * (sigmoid x - 1) + ln (1 + exp (- x)))
                 \<and> entry h i = Finite (- p * ln p - q * ln q))
              \<and> (overflow_bound (tdtype (self_logits d)) \<le> exp (- x) \<longrightarrow> entry h i = PosInf)
              \<and> p = sigmoid x \<and> q = 1 - p)"
  proof (intro allI impI)
    fix i assume "valid_index (shape h) i"
    hence v: "valid_index (shape (self_logits d)) i" by (simp add: h(2))
    let ?x = "entry (self_logits d) i"
    have p: "entry (self_p d) i = sigmoid ?x"
      using Bernoulli_init_p_sigmoid [OF assms v] .
    have q: "entry (self_q d) i = 1 - entry (self_p d) i"
      using f(5) [of i] v by (simp add: f(2))
    have e: "entry h i = add_f (Finite (- ?x * (sigmoid ?x - 1)))
        (log_f (add_f (Finite 1) (exp_f (tdtype (self_logits d)) (- ?x))))"
      using h(3) v by blast
    have pos: "0 < 1 + exp (- ?x)" by (simp add: add_pos_pos)
    have fin: "entry h i = Finite (- ?x * (sigmoid ?x - 1) + ln (1 + exp (- ?x)))"
      if "exp (- ?x) < overflow_bound (tdtype (self_logits d))"
      using that pos by (simp add: e exp_f_def)
    have inf: "entry h i = PosInf"
      if "overflow_bound (tdtype (self_logits d)) \<le> exp (- ?x)"
      using that by (simp add: e exp_f_def)
    show "let x = ?x; p = entry (self_p d) i; q = entry (self_q d) i
           in (exp (- x) < overflow_bound (tdtype (self_logits d)) \<longrightarrow>
                 entry h i = Finite (- x * (sigmoid x - 1) + ln (1 + exp (- x)))
                 \<and> entry h i = Finite (- p * ln p - q * ln q))
              \<and> (overflow_bound (tdtype (self_logits d)) \<le> exp (- x) \<longrightarrow> entry h i = PosInf)
              \<and> p = sigmoid x \<and> q = 1 - p"
      unfolding Let_def q p
      using fin inf entropy_identity [of ?x] by simp
  qed
  with h show ?thesis by (auto simp: batch_shape_def)
qed

theorem entropy_closed_form_where_exp_is_finite_witness:
  "\<exists>d h. Bernoulli_init None (Some (constant_t (1/2) DT_float32)) DT_int32 False True
            ''Bernoulli'' = Inr d
     \<and> entropy d = Inr h \<and> shape h = [] \<and> entry (self_logits d) [] = 0
     \<and> entry h [] = Finite (ln 2) \<and> entry (self_p d) [] = 1/2 \<and> entry (self_q d) [] = 1/2"
proof -
  obtain d where d: "Bernoulli_init None (Some (constant_t (1/2) DT_float32)) DT_int32 False
      True ''Bernoulli'' = Inr d"
    using Bernoulli_init_p_Inr by blast
  have g: "\<forall>x i. Some (constant_t (1/2) DT_float32) = Some x \<longrightarrow> valid_index (shape x) i
      \<longrightarrow> 0 < entry x i \<and> entry x i < 1"
    by auto
  have v0: "valid_index (shape (constant_t (1/2) DT_float32)) []"
    by (simp add: valid_index_def)
  have s: "batch_shape d = []"
    using d by (cases rule: Bernoulli_init_cases) (simp_all add: batch_shape_def)
  have "entry (self_logits d) [] = ln (entry (constant_t (1/2) DT_float32) []
      / (1 - entry (constant_t (1/2) DT_float32) []))"
    using d
  proof (cases rule: Bernoulli_init_cases)
    case (from_p x)
    from from_p(2) have "x = constant_t (1/2) DT_float32" by simp
    with from_p(6) [of "[]"] v0 show ?thesis by simp
  qed simp
  hence l: "entry (self_logits d) [] = 0" by simp
  have b: "exp (- (0::real)) < overflow_bound (tdtype (self_logits d))"
    by (simp add: overflow_bound_def split: dtype.splits)
  from entropy_closed_form_where_exp_is_finite [OF d g]
  obtain h where h: "entropy d = Inr h" "shape h = batch_shape d"
    "\<forall>i. valid_index (shape h) i \<longrightarrow>
          (let x = entry (self_logits d) i; p = entry (self_p d) i; q = entry (self_q d) i
           in (exp (- x) < overflow_bound (tdtype (self_logits d)) \<longrightarrow>
                 entry h i = Finite (- x * (sigmoid x - 1) + ln (1 + exp (- x)))
                 \<and> entry h i = Finite (- p * ln p - q * ln q))
              \<and> (overflow_bound (tdtype (self_logits d)) \<le> exp (- x) \<longrightarrow> entry h i = PosInf)
              \<and> p = sigmoid x \<and> q = 1 - p)"
    by blast
  have "valid_index (shape h) []" by (simp add: h(2) s valid_index_def)
  with h(3) have "let x = entry (self_logits d) []; p = entry (self_p d) [];
        q = entry (self_q d) []
      in (exp (- x) < overflow_bound (tdtype (self_logits d)) \<longrightarrow>
             entry h [] = Finite (- x * (sigmoid x - 1) + ln (1 + exp (- x)))
             \<and> entry h [] = Finite (- p * ln p - q * ln q))
         \<and> (overflow_bound (tdtype (self_logits d)) \<le> exp (- x) \<longrightarrow> entry h [] = PosInf)
         \<and> p = sigmoid x \<and> q = 1 - p"
    by blast
  hence "entry h [] = Finite (ln 2) \<and> entry (self_p d) [] = 1/2 \<and> entry (self_q d) [] = 1/2"
    using b by (simp add: Let_def l sigmoid_def)
  with d h(1,2) s l show ?thesis by auto
qed

end
